theory Spec2Isabelle
  imports Complex_Main
begin

section \<open>Statuses (agents/base.py)\<close>

text \<open>
  \<open>AgentState\<close> and \<open>TaskStatus\<close> are the two enums of \<open>agents/base.py\<close>. Both have
  members called \<open>RATE_LIMITED\<close> and \<open>UNKNOWN\<close>; the members of \<open>AgentState\<close> carry the
  prefix \<open>STATE_\<close> here to keep the two apart.
\<close>

datatype AgentState =
  RUNNING | READY | STATE_RATE_LIMITED | AUTH_REQUIRED | ERROR | STATE_UNKNOWN

datatype TaskStatus =
  SUCCESS | TIMEOUT | PROMPT_FAILED | DOWNLOAD_FAILED | FILE_CORRUPTED | MISSING_SHEETS
  | NAVIGATION_FAILED | AUTH_FAILED | UPLOAD_FAILED | RATE_LIMITED | UNKNOWN

text \<open>
  Exceptions. \<open>PipelineError\<close> carries its status; every other subclass of Python's
  \<open>Exception\<close> is \<open>OtherException\<close>.
\<close>

datatype exn = PipelineError TaskStatus | OtherException


section \<open>The completion logger (engine/completion\_logger.py)\<close>

text \<open>
  Wall-clock instants (\<open>datetime.now()\<close>) are integers counting hundredths of a second,
  so that \<open>round(duration, 2)\<close> of a difference of two instants is that difference.
  The \<open>strftime("%Y%m%d_%H%M%S")\<close> stamp of an instant is its whole second.
\<close>

type_synonym instant = int

text \<open>A Python \<open>str\<close> whose length matters is a list of code points.\<close>

type_synonym utext = "nat list"

definition stamp_of :: "instant \<Rightarrow> int" where
  "stamp_of t = t div 100"

text \<open>The dictionaries that the logger builds: one per prompt, one per task, one per session.\<close>

record prompt_entry =
  prompt_text :: utext
  p_start_time :: instant
  p_end_time :: "instant option"
  success :: "bool option"
  p_duration_seconds :: "int option"
  response_length :: "int option"

record task_entry =
  task_name :: string
  attempt_number :: int
  start_time :: instant
  end_time :: "instant option"
  task_status :: "TaskStatus option"
  agent_failed :: "bool option"
  agent_failed_reason :: "TaskStatus option"
  deprecated :: bool
  deprecated_reason :: "string option"
  duration_seconds :: "int option"
  prompts :: "prompt_entry list"

record session_record =
  session_start :: instant
  sd_agent_name :: string
  sd_prompt_version :: int
  sd_task_source :: string
  tasks :: "task_entry list"

text \<open>
  A session file is \<open>log_dir / "completion_{agent_name}_{timestamp}_{clean_id}.json"\<close>:
  the path is kept as its four components.
\<close>

datatype path = Completion_file string string int string

text \<open>
  The file system: the JSON documents stored under each path, whether \<open>open(path, "w")\<close>
  succeeds, and whether \<open>mkdir\<close> succeeds.
\<close>

record filesystem =
  files :: "path \<rightharpoonup> session_record"
  writable :: bool
  mkdir_ok :: bool

definition write_file :: "filesystem \<Rightarrow> path \<Rightarrow> session_record \<Rightarrow> exn + filesystem" where
  "write_file fs p d =
     (if writable fs then Inr (fs\<lparr>files := (files fs)(p \<mapsto> d)\<rparr>) else Inl OtherException)"

record CompletionLogger =
  session_file :: path
  session_data :: session_record
  current_task :: "task_entry option"
  current_prompt :: "prompt_entry option"

text \<open>\<open>_clean_name\<close>: three replacements, then every character outside \<open>[a-zA-Z0-9._-]\<close> is dropped.\<close>

definition name_char :: "char \<Rightarrow> bool" where
  "name_char c =
     (let n = (of_char c :: nat) in
        (97 \<le> n \<and> n \<le> 122) \<or> (65 \<le> n \<and> n \<le> 90) \<or> (48 \<le> n \<and> n \<le> 57)
        \<or> c = CHR ''.'' \<or> c = CHR ''_'' \<or> c = CHR ''-'')"

definition clean_name :: "string \<Rightarrow> string" where
  "clean_name name =
     filter name_char
       (map (\<lambda>c. if c = CHR ''/'' \<or> c = CHR 0x5C then CHR ''-''
                 else if c = CHR '' '' then CHR ''_'' else c) name)"

text \<open>\<open>_write_to_disk\<close>: dump \<open>session_data\<close> to \<open>session_file\<close>; a failure is logged, not raised.\<close>

definition write_to_disk :: "CompletionLogger \<Rightarrow> filesystem \<Rightarrow> filesystem" where
  "write_to_disk lg fs =
     (case write_file fs (session_file lg) (session_data lg) of
        Inl e \<Rightarrow> fs
      | Inr fs' \<Rightarrow> fs')"

text \<open>
  \<open>__init__\<close>: \<open>log_dir.mkdir\<close> may raise; then the empty session is set up and written.
  \<open>now\<close> is the reading of \<open>datetime.now()\<close>.
\<close>

definition new_logger ::
  "string \<Rightarrow> string option \<Rightarrow> string \<Rightarrow> int \<Rightarrow> string \<Rightarrow> instant \<Rightarrow> filesystem
     \<Rightarrow> exn + (CompletionLogger \<times> filesystem)" where
  "new_logger log_dir task_identifier agent_nm prompt_ver task_src now fs =
     (if \<not> mkdir_ok fs then Inl OtherException
      else
        let lg = \<lparr> session_file =
                     Completion_file log_dir agent_nm (stamp_of now)
                       (clean_name (case task_identifier of None \<Rightarrow> ''unknown''
                                    | Some i \<Rightarrow> if i = [] then ''unknown'' else i)),
                   session_data =
                     \<lparr> session_start = now, sd_agent_name = agent_nm,
                       sd_prompt_version = prompt_ver, sd_task_source = task_src,
                       tasks = [] \<rparr>,
                   current_task = None,
                   current_prompt = None \<rparr>
        in Inr (lg, write_to_disk lg fs))"

definition start_task ::
  "CompletionLogger \<Rightarrow> filesystem \<Rightarrow> string \<Rightarrow> int \<Rightarrow> instant \<Rightarrow> CompletionLogger \<times> filesystem" where
  "start_task lg fs name attempt now =
     (let lg' = lg\<lparr>current_task := Some
                   \<lparr> task_name = name, attempt_number = attempt, start_time = now,
                     end_time = None, task_status = None, agent_failed = None,
                     agent_failed_reason = None, deprecated = False,
                     deprecated_reason = None, duration_seconds = None, prompts = [] \<rparr>\<rparr>
      in (lg', write_to_disk lg' fs))"

definition end_task ::
  "CompletionLogger \<Rightarrow> filesystem \<Rightarrow> TaskStatus \<Rightarrow> instant \<Rightarrow> CompletionLogger \<times> filesystem" where
  "end_task lg fs status now =
     (case current_task lg of
        None \<Rightarrow> (lg, fs)
      | Some t \<Rightarrow>
          let t' = t\<lparr>end_time := Some now, task_status := Some status,
                     duration_seconds := Some (now - start_time t)\<rparr>;
              t'' = (if status = SUCCESS
                     then t'\<lparr>agent_failed := Some False, agent_failed_reason := None\<rparr>
                     else t'\<lparr>agent_failed := Some True, agent_failed_reason := Some status\<rparr>);
              lg' = lg\<lparr>session_data := (session_data lg)\<lparr>tasks := tasks (session_data lg) @ [t'']\<rparr>,
                       current_task := None\<rparr>
          in (lg', write_to_disk lg' fs))"

definition start_prompt ::
  "CompletionLogger \<Rightarrow> filesystem \<Rightarrow> utext \<Rightarrow> instant \<Rightarrow> CompletionLogger \<times> filesystem" where
  "start_prompt lg fs text now =
     (let lg' = lg\<lparr>current_prompt := Some
                   \<lparr> prompt_text = take 500 text, p_start_time = now, p_end_time = None,
                     success = None, p_duration_seconds = None, response_length = None \<rparr>\<rparr>
      in (lg', write_to_disk lg' fs))"

definition end_prompt ::
  "CompletionLogger \<Rightarrow> filesystem \<Rightarrow> bool \<Rightarrow> int \<Rightarrow> instant \<Rightarrow> CompletionLogger \<times> filesystem" where
  "end_prompt lg fs ok resp_len now =
     (case current_prompt lg of
        None \<Rightarrow> (lg, fs)
      | Some p \<Rightarrow>
          let p' = p\<lparr>p_end_time := Some now, success := Some ok,
                     p_duration_seconds := Some (now - p_start_time p)\<rparr>;
              p'' = (if resp_len \<noteq> 0 then p'\<lparr>response_length := Some resp_len\<rparr> else p');
              lg' = (case current_task lg of
                       None \<Rightarrow> lg
                     | Some t \<Rightarrow> lg\<lparr>current_task := Some (t\<lparr>prompts := prompts t @ [p'']\<rparr>)\<rparr>);
              lg'' = lg'\<lparr>current_prompt := None\<rparr>
          in (lg'', write_to_disk lg'' fs))"


section \<open>Properties of the completion logger\<close>

lemma write_to_disk_files:
  "files (write_to_disk lg fs) =
     (if writable fs then (files fs)(session_file lg \<mapsto> session_data lg) else files fs)"
  by (simp add: write_to_disk_def write_file_def)

lemma write_to_disk_flags [simp]:
  "writable (write_to_disk lg fs) = writable fs"
  "mkdir_ok (write_to_disk lg fs) = mkdir_ok fs"
  by (simp_all add: write_to_disk_def write_file_def)

text \<open>
  C10. \<open>end_task\<close> with no active task and \<open>end_prompt\<close> with no active prompt return at
  once: the logger (its session data included) and the file system (the record file
  included) are what they were. Neither function has a raising branch.
\<close>

theorem end_without_active_is_noop:
  "(current_task lg = None \<longrightarrow> end_task lg fs status now = (lg, fs)) \<and>
   (current_prompt lg = None \<longrightarrow> end_prompt lg fs ok resp_len now = (lg, fs))"
  by (simp add: end_task_def end_prompt_def)

definition idle_logger :: CompletionLogger where
  "idle_logger =
     \<lparr> session_file = Completion_file ''json_logs'' ''web_agent'' 17 ''task'',
       session_data = \<lparr> session_start = 1700, sd_agent_name = ''web_agent'',
                        sd_prompt_version = 1, sd_task_source = ''fmwc'', tasks = [] \<rparr>,
       current_task = None, current_prompt = None \<rparr>"

definition plain_fs :: filesystem where
  "plain_fs = \<lparr> files = Map.empty, writable = True, mkdir_ok = True \<rparr>"

theorem end_without_active_is_noop_witness:
  "current_task idle_logger = None \<and> current_prompt idle_logger = None \<and>
   end_task idle_logger plain_fs TIMEOUT 1800 = (idle_logger, plain_fs) \<and>
   end_prompt idle_logger plain_fs True 12 1800 = (idle_logger, plain_fs)"
proof -
  have t: "current_task idle_logger = None" and p: "current_prompt idle_logger = None"
    by (simp_all add: idle_logger_def)
  from end_without_active_is_noop [of idle_logger plain_fs TIMEOUT 1800 True 12] t p
  show ?thesis by simp
qed

text \<open>
  What the four mutating calls do write: when the file can be opened, the record file
  holds the logger's \<open>session_data\<close> after the call.
\<close>

lemma session_data_on_disk:
  assumes "writable fs"
  shows "files (snd (start_task lg fs name attempt now)) (session_file lg)
           = Some (session_data (fst (start_task lg fs name attempt now)))"
    and "current_task lg \<noteq> None \<Longrightarrow>
         files (snd (end_task lg fs status now)) (session_file lg)
           = Some (session_data (fst (end_task lg fs status now)))"
    and "files (snd (start_prompt lg fs text now)) (session_file lg)
           = Some (session_data (fst (start_prompt lg fs text now)))"
    and "current_prompt lg \<noteq> None \<Longrightarrow>
         files (snd (end_prompt lg fs ok resp_len now)) (session_file lg)
           = Some (session_data (fst (end_prompt lg fs ok resp_len now)))"
  using assms
  by (auto simp: start_task_def end_task_def start_prompt_def end_prompt_def Let_def
        write_to_disk_files split: option.splits)

text \<open>
  C9. The claim fails on \<open>start_task\<close> (and likewise on \<open>start_prompt\<close> and
  \<open>end_prompt\<close>): the task that was started lives in \<open>current_task\<close> only. The
  session data are what they were, so the file system after the call is exactly what
  writing the logger as it stood before the call gives; the started task is not in the
  file until \<open>end_task\<close> appends it.
\<close>

theorem start_task_only_in_memory:
  "current_task (fst (start_task lg fs name attempt now)) \<noteq> None \<and>
   session_data (fst (start_task lg fs name attempt now)) = session_data lg \<and>
   snd (start_task lg fs name attempt now) = write_to_disk lg fs"
  by (simp add: start_task_def Let_def write_to_disk_def)


section \<open>The ChatGPT agent (agents/chatgpt.py)\<close>

text \<open>
  Readings of the event loop's clock, taken relative to \<open>start_time\<close>, are real numbers
  of seconds.
\<close>

record ChatGPTWebAgent =
  max_wait_per_prompt :: real
  check_interval :: real
  agent_mode :: bool
  baseline_article_count :: nat
  baseline_set :: bool

text \<open>
  What a page shows to \<open>get_state\<close>: whether its URL is on \<open>chatgpt.com\<close>, and the four
  flags that the script evaluated in the page returns (\<open>None\<close> when \<open>page.evaluate\<close> raises).
\<close>

record dom_flags =
  hasLogin :: bool
  hasStop :: bool
  hasThinking :: bool
  hasInput :: bool

record chatgpt_page =
  url_on_domain :: bool
  dom :: "dom_flags option"

definition get_state :: "chatgpt_page \<Rightarrow> AgentState" where
  "get_state pg =
     (if \<not> url_on_domain pg then AUTH_REQUIRED
      else case dom pg of
             None \<Rightarrow> ERROR
           | Some f \<Rightarrow>
               if hasLogin f then AUTH_REQUIRED
               else if hasStop f \<or> hasThinking f then RUNNING
               else if hasInput f then READY
               else STATE_UNKNOWN)"

text \<open>
  \<open>navigate_to_new_chat\<close>. The observations: whether \<open>page.goto\<close> and \<open>page.title\<close>
  return, the page reached, whether the chat input is attached within the first wait,
  whether the reload returns, and whether the input is attached after it. Any exception
  in the body is caught and gives \<open>False\<close>. The baseline is reset first.
\<close>

record chatgpt_nav =
  goto_ok :: bool
  title_ok :: bool
  landed :: chatgpt_page
  input_initial :: bool
  reload_ok :: bool
  input_after_reload :: bool

definition navigate_to_new_chat :: "ChatGPTWebAgent \<Rightarrow> chatgpt_nav \<Rightarrow> bool \<times> ChatGPTWebAgent" where
  "navigate_to_new_chat ag ob =
     (let ag' = ag\<lparr>baseline_article_count := 0, baseline_set := False\<rparr> in
      (if \<not> goto_ok ob then False
       else if \<not> title_ok ob then False
       else if \<not> url_on_domain (landed ob) then True
       else if get_state (landed ob) = AUTH_REQUIRED then True
       else if input_initial ob then True
       else if \<not> reload_ok ob then False
       else if input_after_reload ob then True
       else False,
       ag'))"

text \<open>
  \<open>wait_for_response\<close>, phase 1: at most 60 polls. Each poll reads the shutdown event,
  \<open>_is_generating()\<close> and \<open>_count_response_articles()\<close>.
\<close>

record start_probe =
  sp_shutdown :: bool
  sp_generating :: bool
  sp_count :: nat

datatype start_result = Started | Not_started | Start_aborted

fun wait_for_start :: "nat \<Rightarrow> (nat \<Rightarrow> start_probe) \<Rightarrow> nat \<Rightarrow> nat \<Rightarrow> start_result" where
  "wait_for_start baseline probes i 0 = Not_started"
| "wait_for_start baseline probes i (Suc n) =
     (if sp_shutdown (probes i) then Start_aborted
      else if sp_generating (probes i) then Started
      else if sp_count (probes i) > baseline then Started
      else wait_for_start baseline probes (Suc i) n)"

text \<open>
  Phase 2, the stabilization loop. One sample is what one iteration reads: the clock in
  the loop condition, the shutdown event, \<open>_is_generating()\<close>, the article count, the
  extracted text, and the clock again for \<open>elapsed\<close>.
\<close>

record sample =
  clock :: real
  shutdown :: bool
  generating :: bool
  article_count :: nat
  response :: "utext option"
  elapsed :: real

record stab_state =
  stable_count :: nat
  last_response_text :: utext
  last_article_count :: nat
  ever_saw_generating :: bool

definition required_stable :: nat where
  "required_stable = 5"

text \<open>\<open>await self._extract_last_response() or ""\<close>.\<close>

definition current_response :: "sample \<Rightarrow> utext" where
  "current_response x = (case response x of None \<Rightarrow> [] | Some t \<Rightarrow> t)"

text \<open>The body of the loop after the shutdown check: \<open>Inl\<close> is \<open>return current_response\<close>.\<close>

definition stabilize_sample :: "real \<Rightarrow> stab_state \<Rightarrow> sample \<Rightarrow> utext + stab_state" where
  "stabilize_sample min_elapsed_sec st x =
     (let articles_changed = (article_count x \<noteq> last_article_count st);
          st1 = (if articles_changed then st\<lparr>last_article_count := article_count x\<rparr> else st)
      in
        if generating x \<or> articles_changed then
          Inr (st1\<lparr>stable_count := 0,
                  ever_saw_generating := (generating x \<or> ever_saw_generating st1),
                  last_response_text := current_response x\<rparr>)
        else
          let text_changed = (current_response x \<noteq> last_response_text st1);
              st2 = st1\<lparr>last_response_text := current_response x,
                        stable_count := (if text_changed then 0 else stable_count st1 + 1)\<rparr>
          in
            if stable_count st2 \<ge> required_stable then
              if length (current_response x) > 50 then
                if elapsed x \<ge> min_elapsed_sec then Inl (current_response x)
                else Inr (st2\<lparr>stable_count := 0\<rparr>)
              else Inr (st2\<lparr>stable_count := 0\<rparr>)
            else Inr st2)"

text \<open>
  The loop over a script of samples. \<open>Out_of_samples\<close>: the script ends while the loop is
  still polling.
\<close>

datatype stab_exit = Completed utext | Aborted | Timed_out | Out_of_samples stab_state

fun stabilize :: "real \<Rightarrow> real \<Rightarrow> stab_state \<Rightarrow> sample list \<Rightarrow> stab_exit" where
  "stabilize max_wait min_elapsed_sec st [] = Out_of_samples st"
| "stabilize max_wait min_elapsed_sec st (x # xs) =
     (if \<not> clock x < max_wait then Timed_out
      else if shutdown x then Aborted
      else case stabilize_sample min_elapsed_sec st x of
             Inl txt \<Rightarrow> Completed txt
           | Inr st' \<Rightarrow> stabilize max_wait min_elapsed_sec st' xs)"

record wait_env =
  articles_before :: nat
  start_probes :: "nat \<Rightarrow> start_probe"
  samples :: "sample list"
  final_response :: "utext option"

datatype wait_result = Returned "utext option" | Still_waiting

definition wait_for_response :: "ChatGPTWebAgent \<Rightarrow> wait_env \<Rightarrow> wait_result \<times> ChatGPTWebAgent" where
  "wait_for_response ag env =
     (let baseline = articles_before env;
          ag' = (if \<not> baseline_set ag
                 then ag\<lparr>baseline_article_count := baseline, baseline_set := True\<rparr>
                 else ag);
          min_elapsed_sec = (if agent_mode ag' then 300 else 15)
      in
        case wait_for_start baseline (start_probes env) 0 60 of
          Start_aborted \<Rightarrow> (Returned None, ag')
        | Not_started \<Rightarrow> (Returned None, ag')
        | Started \<Rightarrow>
            (case stabilize (max_wait_per_prompt ag') min_elapsed_sec
                    \<lparr> stable_count = 0, last_response_text = [],
                      last_article_count = baseline, ever_saw_generating = True \<rparr>
                    (samples env) of
               Completed txt \<Rightarrow> (Returned (Some txt), ag')
             | Aborted \<Rightarrow> (Returned None, ag')
             | Timed_out \<Rightarrow>
                 (Returned (case final_response env of
                              None \<Rightarrow> None
                            | Some t \<Rightarrow> if length t > 50 then Some t else None), ag')
             | Out_of_samples st \<Rightarrow> (Still_waiting, ag')))"


section \<open>The Claude agent (agents/claude.py)\<close>

text \<open>
  What a page shows to Claude's \<open>get_state\<close>: the rate-limit message and the visible
  login link (\<open>None\<close> when the query raises, which the outer handler turns into
  \<open>UNKNOWN\<close>), a visible stop button and a visible input under any of their selectors
  (a selector whose query raises is skipped).
\<close>

record claude_page =
  rate_limit_shown :: "bool option"
  login_visible :: "bool option"
  stop_visible :: bool
  input_visible :: bool

definition claude_get_state :: "claude_page \<Rightarrow> AgentState" where
  "claude_get_state pg =
     (case rate_limit_shown pg of
        None \<Rightarrow> STATE_UNKNOWN
      | Some True \<Rightarrow> STATE_RATE_LIMITED
      | Some False \<Rightarrow>
          (case login_visible pg of
             None \<Rightarrow> STATE_UNKNOWN
           | Some True \<Rightarrow> AUTH_REQUIRED
           | Some False \<Rightarrow>
               if stop_visible pg then RUNNING
               else if input_visible pg then READY
               else STATE_UNKNOWN))"

text \<open>
  Claude's \<open>navigate_to_new_chat\<close>: \<open>page.goto\<close> may raise; the two feature switches
  catch their own exceptions.
\<close>

record claude_nav =
  c_goto_ok :: bool
  c_landed :: claude_page

definition claude_navigate_to_new_chat :: "claude_nav \<Rightarrow> bool" where
  "claude_navigate_to_new_chat ob =
     (if \<not> c_goto_ok ob then False
      else if claude_get_state (c_landed ob) = AUTH_REQUIRED then False
      else True)"

text \<open>
  Claude's \<open>wait_for_response\<close>: one loop, whose counter \<open>elapsed\<close> grows by
  \<open>check_interval\<close> per poll. A poll reads the shutdown event, the state, the number of
  response elements (\<open>None\<close> when the query raises), the state one second later and the
  extracted text.

  \<open>elapsed += self.check_interval\<close> adds two Python numbers: the sum is exact when both
  are \<open>int\<close> and rounded to a double when one is a \<open>float\<close> (ten times \<open>0.1\<close> stays
  below \<open>1\<close>). The sum that Python computes is the parameter \<open>add\<close>; \<open>int_add\<close> is the
  exact sum of two \<open>int\<close>, which is what the default settings \<open>2\<close> and \<open>1800\<close> use.
\<close>

definition int_add :: "real \<Rightarrow> real \<Rightarrow> real" where
  "int_add a b = a + b"

record ConversationMessage =
  role :: string
  content :: utext

record ClaudeWebAgent =
  c_max_wait_per_prompt :: real
  c_check_interval :: real
  messages :: "ConversationMessage list"

record claude_poll =
  cp_shutdown :: bool
  cp_state :: AgentState
  cp_responses :: "nat option"
  cp_final_state :: AgentState
  cp_response :: "utext option"

fun claude_wait ::
  "(real \<Rightarrow> real \<Rightarrow> real) \<Rightarrow> ClaudeWebAgent \<Rightarrow> real \<Rightarrow> bool \<Rightarrow> claude_poll list
     \<Rightarrow> wait_result \<times> ClaudeWebAgent" where
  "claude_wait add ag el saw_running [] =
     (if el < c_max_wait_per_prompt ag then (Still_waiting, ag) else (Returned None, ag))"
| "claude_wait add ag el saw_running (p # ps) =
     (if \<not> el < c_max_wait_per_prompt ag then (Returned None, ag)
      else if cp_shutdown p then (Returned None, ag)
      else
        let el' = add el (c_check_interval ag) in
          if cp_state p = RUNNING then claude_wait add ag el' True ps
          else if cp_state p = STATE_RATE_LIMITED then (Returned None, ag)
          else if cp_state p = READY then
            (let saw' = (saw_running \<or> (case cp_responses p of None \<Rightarrow> False | Some n \<Rightarrow> n > 1))
             in if \<not> saw' then claude_wait add ag el' saw' ps
                else if cp_final_state p = READY then
                  (case cp_response p of
                     None \<Rightarrow> (Returned None, ag)
                   | Some t \<Rightarrow>
                       if t = [] then (Returned (Some t), ag)
                       else (Returned (Some t),
                             ag\<lparr>messages := messages ag
                                  @ [\<lparr>role = ''assistant'', content = t\<rparr>]\<rparr>))
                else claude_wait add ag el' saw' ps)
          else claude_wait add ag el' saw_running ps)"

definition claude_wait_for_response ::
  "(real \<Rightarrow> real \<Rightarrow> real) \<Rightarrow> ClaudeWebAgent \<Rightarrow> claude_poll list
     \<Rightarrow> wait_result \<times> ClaudeWebAgent" where
  "claude_wait_for_response add ag polls = claude_wait add ag 0 False polls"

text \<open>The value of \<open>elapsed\<close> when \<open>n\<close> polls have been made.\<close>

definition elapsed_after :: "(real \<Rightarrow> real \<Rightarrow> real) \<Rightarrow> ClaudeWebAgent \<Rightarrow> nat \<Rightarrow> real" where
  "elapsed_after add ag n = ((\<lambda>e. add e (c_check_interval ag)) ^^ n) 0"


section \<open>Properties of the ChatGPT agent\<close>

text \<open>A sample is steady for a text and an article count: not generating, and showing both.\<close>

definition steady :: "utext \<Rightarrow> nat \<Rightarrow> sample \<Rightarrow> bool" where
  "steady txt n x = (\<not> generating x \<and> current_response x = txt \<and> article_count x = n)"

definition counted :: "stab_state \<Rightarrow> sample list \<Rightarrow> bool" where
  "counted st hist =
     (\<exists>pre q. hist = pre @ q \<and> length q = stable_count st \<and>
        (\<forall>x\<in>set q. steady (last_response_text st) (last_article_count st) x))"

lemma counted_step:
  assumes "counted st hist" "stabilize_sample m st x = Inr st'"
  shows "counted st' (hist @ [x])"
proof -
  from assms(1) obtain pre q where h: "hist = pre @ q" "length q = stable_count st"
    "\<forall>y\<in>set q. steady (last_response_text st) (last_article_count st) y"
    unfolding counted_def by blast
  show ?thesis
  proof (cases "stable_count st' = 0")
    case True
    then show ?thesis unfolding counted_def
      by (intro exI[of _ "hist @ [x]"] exI[of _ "[]"]) simp
  next
    case False
    with assms(2) have "stable_count st' = stable_count st + 1 \<and>
        last_response_text st' = last_response_text st \<and>
        last_article_count st' = last_article_count st \<and>
        steady (last_response_text st) (last_article_count st) x"
      by (auto simp: stabilize_sample_def Let_def steady_def split: if_splits)
    with h show ?thesis unfolding counted_def
      by (intro exI[of _ pre] exI[of _ "q @ [x]"]) auto
  qed
qed

lemma counted_done:
  assumes "counted st hist" "stabilize_sample m st x = Inl txt"
  shows "\<exists>pre q. hist @ [x] = pre @ q \<and> length q = required_stable \<and>
           (\<forall>y\<in>set q. steady txt (article_count x) y) \<and>
           m \<le> elapsed x \<and> 50 < length txt"
proof -
  from assms(1) obtain pre q where h: "hist = pre @ q" "length q = stable_count st"
    "\<forall>y\<in>set q. steady (last_response_text st) (last_article_count st) y"
    unfolding counted_def by blast
  from assms(2) have f: "required_stable \<le> stable_count st + 1"
      "last_response_text st = txt" "last_article_count st = article_count x"
      "steady txt (article_count x) x" "m \<le> elapsed x" "50 < length txt"
    by (auto simp: stabilize_sample_def Let_def steady_def required_stable_def split: if_splits)
  define k where "k = stable_count st + 1 - required_stable"
  have "hist @ [x] = (pre @ take k q) @ (drop k q @ [x])" using h by simp
  moreover have "length (drop k q @ [x]) = required_stable"
    using f(1) h(2) by (simp add: k_def required_stable_def)
  moreover have "\<forall>y\<in>set (drop k q @ [x]). steady txt (article_count x) y"
    using h(3) f by (auto dest: in_set_dropD)
  ultimately show ?thesis using f by blast
qed

lemma stabilize_completed:
  assumes "stabilize mw m st xs = Completed txt" "counted st hist"
  shows "\<exists>pre q rest n. hist @ xs = pre @ q @ rest \<and> length q = required_stable \<and>
           (\<forall>y\<in>set q. steady txt n y) \<and>
           m \<le> elapsed (last q) \<and> 50 < length txt"
  using assms
proof (induction xs arbitrary: st hist)
  case Nil
  then show ?case by simp
next
  case (Cons x xs)
  show ?case
  proof (cases "stabilize_sample m st x")
    case (Inl t)
    with Cons.prems(1) have "t = txt" by (simp split: if_splits)
    with Inl have "stabilize_sample m st x = Inl txt" by simp
    from counted_done[OF Cons.prems(2) this]
    obtain pre q where "hist @ [x] = pre @ q" "length q = required_stable"
      "\<forall>y\<in>set q. steady txt (article_count x) y" "m \<le> elapsed x" "50 < length txt"
      by blast
    moreover from this have "last q = x"
      by (metis last_appendR last_snoc length_0_conv required_stable_def zero_neq_numeral)
    ultimately show ?thesis
      by (intro exI[of _ pre] exI[of _ q] exI[of _ xs] exI[of _ "article_count x"]) simp
  next
    case (Inr st')
    with Cons.prems(1) have "stabilize mw m st' xs = Completed txt" by (simp split: if_splits)
    from Cons.IH[OF this counted_step[OF Cons.prems(2) Inr]]
    show ?thesis by simp
  qed
qed

lemma stabilize_timed_out:
  "stabilize mw m st xs = Timed_out \<Longrightarrow> \<exists>x\<in>set xs. \<not> clock x < mw"
proof (induction xs arbitrary: st)
  case Nil
  then show ?case by simp
next
  case (Cons x xs)
  show ?case
  proof (cases "clock x < mw")
    case False
    then show ?thesis by auto
  next
    case True
    with Cons.prems obtain st' where "stabilize mw m st' xs = Timed_out"
      by (auto split: if_splits sum.splits)
    from Cons.IH[OF this] show ?thesis by auto
  qed
qed

lemma wait_for_response_result:
  "fst (wait_for_response ag env) =
     (case wait_for_start (articles_before env) (start_probes env) 0 60 of
        Start_aborted \<Rightarrow> Returned None
      | Not_started \<Rightarrow> Returned None
      | Started \<Rightarrow>
          (case stabilize (max_wait_per_prompt ag) (if agent_mode ag then 300 else 15)
                  \<lparr> stable_count = 0, last_response_text = [],
                    last_article_count = articles_before env, ever_saw_generating = True \<rparr>
                  (samples env) of
             Completed txt \<Rightarrow> Returned (Some txt)
           | Aborted \<Rightarrow> Returned None
           | Timed_out \<Rightarrow>
               Returned (case final_response env of
                           None \<Rightarrow> None
                         | Some t \<Rightarrow> if length t > 50 then Some t else None)
           | Out_of_samples st \<Rightarrow> Still_waiting))"
  by (simp add: wait_for_response_def Let_def split: start_result.splits stab_exit.splits)

lemma wait_for_start_first:
  "\<not> sp_shutdown (probes i) \<Longrightarrow> sp_generating (probes i) \<Longrightarrow> 0 < n \<Longrightarrow>
   wait_for_start baseline probes i n = Started"
  by (cases n) simp_all

text \<open>
  C2. The stabilization loop of \<open>wait_for_response\<close> (ChatGPT agent).
  (1) A sample that is generating, or whose article count differs from the last one, or
  whose text differs from the last text, leaves the counter at zero.
  (2) The body returns the text only if the counter, this sample included, has reached
  \<open>required_stable\<close>, the elapsed time is at least the floor, the text is longer than 50,
  and the sample itself is steady.
  (3) Over a whole run started with the counter at zero: if the loop completes with a
  text, the samples read contain five consecutive ones, the last of them the completing
  one, none generating, all showing that text and one article count; the elapsed-time
  floor has passed at the last and the text is longer than 50.
  (4) The routine itself: when \<open>wait_for_response\<close> returns a text and no sample was
  read at or after \<open>max_wait_per_prompt\<close>, the start was confirmed, and the samples
  contain five consecutive ones, none generating, all showing the returned text and one
  article count; at the last of them the elapsed time is at least the floor (300 seconds
  in agent mode, 15 otherwise), and the text is longer than 50.
  The return after the loop (overall timeout, lines 608-613) is a different exit,
  \<open>Timed_out\<close>: it returns the text extracted then, when that is longer than 50.
\<close>

theorem stabilization_counter:
  "(generating x \<or> article_count x \<noteq> last_article_count st
      \<or> current_response x \<noteq> last_response_text st \<longrightarrow>
      (\<exists>st'. stabilize_sample m st x = Inr st' \<and> stable_count st' = 0)) \<and>
   (stabilize_sample m st3 x3 = Inl txt3 \<longrightarrow>
      required_stable \<le> stable_count st3 + 1 \<and> m \<le> elapsed x3 \<and> 50 < length txt3 \<and>
      steady txt3 (last_article_count st3) x3 \<and> last_response_text st3 = txt3) \<and>
   (stable_count st4 = 0 \<and> stabilize mw m st4 xs = Completed txt \<longrightarrow>
      (\<exists>pre q rest n. xs = pre @ q @ rest \<and> length q = 5 \<and>
         (\<forall>y\<in>set q. steady txt n y) \<and> m \<le> elapsed (last q) \<and> 50 < length txt)) \<and>
   (fst (wait_for_response ag env) = Returned (Some reply) \<and>
      (\<forall>y\<in>set (samples env). clock y < max_wait_per_prompt ag) \<longrightarrow>
      wait_for_start (articles_before env) (start_probes env) 0 60 = Started \<and>
      (\<exists>pre q rest n. samples env = pre @ q @ rest \<and> length q = 5 \<and>
         (\<forall>y\<in>set q. steady reply n y) \<and>
         (if agent_mode ag then 300 else 15) \<le> elapsed (last q) \<and> 50 < length reply))"
proof -
  have p1: "\<exists>st'. stabilize_sample m st x = Inr st' \<and> stable_count st' = 0"
    if "generating x \<or> article_count x \<noteq> last_article_count st
          \<or> current_response x \<noteq> last_response_text st"
    using that by (auto simp: stabilize_sample_def Let_def required_stable_def)
  have p2: "required_stable \<le> stable_count st3 + 1 \<and> m \<le> elapsed x3 \<and> 50 < length txt3 \<and>
      steady txt3 (last_article_count st3) x3 \<and> last_response_text st3 = txt3"
    if "stabilize_sample m st3 x3 = Inl txt3"
    using that
    by (auto simp: stabilize_sample_def Let_def steady_def required_stable_def split: if_splits)
  have p3: "\<exists>pre q rest n. xs = pre @ q @ rest \<and> length q = 5 \<and>
         (\<forall>y\<in>set q. steady txt n y) \<and> m \<le> elapsed (last q) \<and> 50 < length txt"
    if a: "stable_count st4 = 0 \<and> stabilize mw m st4 xs = Completed txt"
  proof -
    from a have "counted st4 []" by (simp add: counted_def)
    from stabilize_completed[OF conjunct2[OF a] this]
    show ?thesis by (simp add: required_stable_def)
  qed
  have p4: "wait_for_start (articles_before env) (start_probes env) 0 60 = Started \<and>
      (\<exists>pre q rest n. samples env = pre @ q @ rest \<and> length q = 5 \<and>
         (\<forall>y\<in>set q. steady reply n y) \<and>
         (if agent_mode ag then 300 else 15) \<le> elapsed (last q) \<and> 50 < length reply)"
    if a: "fst (wait_for_response ag env) = Returned (Some reply) \<and>
      (\<forall>y\<in>set (samples env). clock y < max_wait_per_prompt ag)"
  proof -
    let ?st = "\<lparr> stable_count = 0, last_response_text = [],
                 last_article_count = articles_before env, ever_saw_generating = True \<rparr>"
    let ?run = "stabilize (max_wait_per_prompt ag) (if agent_mode ag then 300 else 15) ?st
                  (samples env)"
    from a have nt: "?run \<noteq> Timed_out" using stabilize_timed_out by blast
    from a have "fst (wait_for_response ag env) = Returned (Some reply)" by simp
    with nt have s: "wait_for_start (articles_before env) (start_probes env) 0 60 = Started"
      and c: "?run = Completed reply"
      by (auto simp: wait_for_response_result split: start_result.splits stab_exit.splits)
    have "counted ?st []" by (simp add: counted_def)
    from stabilize_completed[OF c this] s show ?thesis by (simp add: required_stable_def)
  qed
  from p1 p2 p3 p4 show ?thesis by blast
qed

definition busy_sample :: sample where
  "busy_sample = \<lparr> clock = 10, shutdown = False, generating = True, article_count = 1,
                    response = Some (replicate 20 66), elapsed = 10 \<rparr>"

definition still_sample :: "real \<Rightarrow> sample" where
  "still_sample t = \<lparr> clock = t, shutdown = False, generating = False, article_count = 1,
                    response = Some (replicate 51 65), elapsed = t \<rparr>"

definition fresh_state :: "nat \<Rightarrow> stab_state" where
  "fresh_state n = \<lparr> stable_count = n, last_response_text = replicate 51 65,
                      last_article_count = 1, ever_saw_generating = True \<rparr>"

lemma busy_sample_resets: "stabilize_sample 15 (fresh_state 4) busy_sample = Inr X \<Longrightarrow> stable_count X = 0"
  by (auto simp: stabilize_sample_def fresh_state_def busy_sample_def Let_def)

lemma still_sample_completes: "stabilize_sample 15 (fresh_state 4) (still_sample 30) = Inl (replicate 51 65)"
  by (simp add: stabilize_sample_def fresh_state_def still_sample_def Let_def current_response_def required_stable_def)

lemma five_still_samples_complete: "stabilize 1800 15 (fresh_state 0) (map still_sample [18, 21, 24, 27, 30]) = Completed (replicate 51 65)"
  by (simp add: stabilize_sample_def fresh_state_def still_sample_def Let_def current_response_def required_stable_def)


definition answering_env :: wait_env where
  "answering_env =
     \<lparr> articles_before = 1,
       start_probes = (\<lambda>i. \<lparr> sp_shutdown = False, sp_generating = True, sp_count = 1 \<rparr>),
       samples = map still_sample [300, 303, 306, 309, 312, 315],
       final_response = None \<rparr>"

definition agent_mode_chatgpt :: ChatGPTWebAgent where
  "agent_mode_chatgpt =
     \<lparr> max_wait_per_prompt = 1800, check_interval = 3, agent_mode = True,
       baseline_article_count = 0, baseline_set = False \<rparr>"

lemma answering_env_returns:
  "fst (wait_for_response agent_mode_chatgpt answering_env) = Returned (Some (replicate 51 65))"
proof -
  have "wait_for_start (articles_before answering_env) (start_probes answering_env) 0 60 = Started"
    by (rule wait_for_start_first) (simp_all add: answering_env_def)
  then show ?thesis
    by (simp add: wait_for_response_result agent_mode_chatgpt_def answering_env_def
        stabilize_sample_def still_sample_def Let_def current_response_def required_stable_def)
qed

theorem stabilization_counter_witness:
  "generating busy_sample \<and>
   (\<exists>st'. stabilize_sample 15 (fresh_state 4) busy_sample = Inr st' \<and> stable_count st' = 0) \<and>
   stabilize_sample 15 (fresh_state 4) (still_sample 30) = Inl (replicate 51 65) \<and>
   required_stable \<le> stable_count (fresh_state 4) + 1 \<and> (15::real) \<le> elapsed (still_sample 30) \<and>
   stable_count (fresh_state 0) = 0 \<and>
   stabilize 1800 15 (fresh_state 0) (map still_sample [18, 21, 24, 27, 30])
     = Completed (replicate 51 65) \<and>
   (\<exists>pre q rest n. map still_sample [18, 21, 24, 27, 30] = pre @ q @ rest \<and> length q = 5 \<and>
      (\<forall>y\<in>set q. steady (replicate 51 65) n y) \<and> 15 \<le> elapsed (last q)) \<and>
   fst (wait_for_response agent_mode_chatgpt answering_env) = Returned (Some (replicate 51 65)) \<and>
   (\<exists>pre q rest n. samples answering_env = pre @ q @ rest \<and> length q = 5 \<and>
      (\<forall>y\<in>set q. steady (replicate 51 65) n y) \<and> 300 \<le> elapsed (last q))"
proof -
  have g: "generating busy_sample" by (simp add: busy_sample_def)
  have c: "stable_count (fresh_state 0) = 0" by (simp add: fresh_state_def)
  have k: "\<forall>y\<in>set (samples answering_env). clock y < max_wait_per_prompt agent_mode_chatgpt"
    by (simp add: answering_env_def agent_mode_chatgpt_def still_sample_def)
  have m: "agent_mode agent_mode_chatgpt" by (simp add: agent_mode_chatgpt_def)
  note inst = stabilization_counter [of busy_sample "fresh_state 4" 15 "fresh_state 4"
      "still_sample 30" "replicate 51 65" "fresh_state 0" 1800
      "map still_sample [18, 21, 24, 27, 30]" "replicate 51 65"
      agent_mode_chatgpt answering_env "replicate 51 65"]
  from inst g still_sample_completes five_still_samples_complete c answering_env_returns k m
  show ?thesis by simp
qed

definition later_calls :: "ChatGPTWebAgent \<Rightarrow> wait_env list \<Rightarrow> ChatGPTWebAgent" where
  "later_calls ag envs = foldl (\<lambda>a e. snd (wait_for_response a e)) ag envs"

lemma wait_for_response_agent:
  "snd (wait_for_response ag env) =
     (if baseline_set ag then ag
      else ag\<lparr>baseline_article_count := articles_before env, baseline_set := True\<rparr>)"
  by (simp add: wait_for_response_def Let_def split: start_result.splits stab_exit.splits)

lemma later_calls_keep:
  "baseline_set ag \<Longrightarrow> later_calls ag envs = ag"
  by (induction envs arbitrary: ag) (simp_all add: later_calls_def wait_for_response_agent)

text \<open>
  C4. After any call of \<open>wait_for_response\<close> the baseline is set; a first call stores the
  article count it read, and whatever calls follow in the session (no navigation in
  between), the stored baseline stays what it was after that call.
\<close>

theorem baseline_captured_once:
  "baseline_set (snd (wait_for_response ag env)) \<and>
   baseline_article_count (snd (wait_for_response ag env))
     = (if baseline_set ag then baseline_article_count ag else articles_before env) \<and>
   baseline_article_count (later_calls (snd (wait_for_response ag env)) envs)
     = baseline_article_count (snd (wait_for_response ag env))"
proof -
  have s: "baseline_set (snd (wait_for_response ag env))"
    by (simp add: wait_for_response_agent)
  from later_calls_keep[OF s] s show ?thesis
    by (simp add: wait_for_response_agent)
qed

lemma wait_for_start_quiet:
  "\<forall>j<n. \<not> sp_generating (probes (i + j)) \<and> \<not> baseline < sp_count (probes (i + j))
   \<Longrightarrow> wait_for_start baseline probes i n \<noteq> Started"
proof (induction n arbitrary: i)
  case 0
  then show ?case by simp
next
  case (Suc n)
  have "\<forall>j<n. \<not> sp_generating (probes (Suc i + j)) \<and> \<not> baseline < sp_count (probes (Suc i + j))"
  proof (intro allI impI)
    fix j assume "j < n"
    then have "Suc j < Suc n" by simp
    with Suc.prems have "\<not> sp_generating (probes (i + Suc j)) \<and> \<not> baseline < sp_count (probes (i + Suc j))"
      by blast
    then show "\<not> sp_generating (probes (Suc i + j)) \<and> \<not> baseline < sp_count (probes (Suc i + j))" by simp
  qed
  from Suc.IH[OF this] Suc.prems[rule_format, of 0] show ?case by simp
qed

definition claude_quiet :: "nat \<Rightarrow> claude_poll \<Rightarrow> bool" where
  "claude_quiet before p =
     (cp_state p \<noteq> RUNNING \<and> (case cp_responses p of None \<Rightarrow> True | Some n \<Rightarrow> n \<le> before))"

fun quiet_until ::
  "(real \<Rightarrow> real \<Rightarrow> real) \<Rightarrow> real \<Rightarrow> real \<Rightarrow> real \<Rightarrow> nat \<Rightarrow> claude_poll list \<Rightarrow> bool" where
  "quiet_until add bound interval el before [] = True"
| "quiet_until add bound interval el before (p # ps) =
     (if add el interval \<le> bound
      then claude_quiet before p \<and> quiet_until add bound interval (add el interval) before ps
      else True)"

lemma claude_wait_quiet:
  "\<forall>p\<in>set polls. claude_quiet 1 p \<Longrightarrow>
   fst (claude_wait add ag el False polls) \<noteq> Returned (Some t)"
  by (induction polls arbitrary: el) (auto simp: claude_quiet_def Let_def split: option.splits)

lemma claude_wait_quiet_none:
  "\<forall>p\<in>set polls. claude_quiet 1 p \<Longrightarrow>
   c_max_wait_per_prompt ag \<le> ((\<lambda>e. add e (c_check_interval ag)) ^^ length polls) el \<Longrightarrow>
   claude_wait add ag el False polls = (Returned None, ag)"
proof (induction polls arbitrary: el)
  case Nil
  then show ?case by simp
next
  case (Cons p ps)
  let ?f = "\<lambda>e. add e (c_check_interval ag)"
  have "(?f ^^ length (p # ps)) el = (?f ^^ length ps) (?f el)"
    by (simp only: list.size(4) One_nat_def add_Suc_right add_0_right funpow_Suc_right o_apply)
  with Cons.prems(2) have "c_max_wait_per_prompt ag \<le> (?f ^^ length ps) (add el (c_check_interval ag))"
    by simp
  with Cons.IH[of "add el (c_check_interval ag)"] Cons.prems(1)
  have ih: "claude_wait add ag (add el (c_check_interval ag)) False ps = (Returned None, ag)"
    by simp
  from Cons.prems(1) have q: "claude_quiet 1 p" by simp
  then show ?case using ih
    by (auto simp: claude_quiet_def Let_def split: option.splits)
qed

text \<open>
  C3, as amended. ChatGPT agent: if none of the 60 start polls shows a generation
  indicator or an article count above the count read before, \<open>wait_for_response\<close>
  returns none, whatever the stabilization samples would have been (they are not read).
  Claude agent: there is no separate start bound. While no poll shows \<open>RUNNING\<close> or more
  than one response element, the routine returns no response; and when the counter
  \<open>elapsed\<close>, as Python adds it up, has reached \<open>max_wait_per_prompt\<close> by the end of
  such polls, it returns none.
\<close>

theorem no_start_returns_none:
  "((\<forall>i<60. \<not> sp_generating (start_probes env i)
            \<and> \<not> articles_before env < sp_count (start_probes env i)) \<longrightarrow>
      fst (wait_for_response ag (env\<lparr>samples := xs, final_response := r\<rparr>)) = Returned None) \<and>
   ((\<forall>p\<in>set polls. claude_quiet 1 p) \<longrightarrow>
      fst (claude_wait_for_response add cag polls) \<noteq> Returned (Some t)) \<and>
   ((\<forall>p\<in>set polls. claude_quiet 1 p) \<and>
      c_max_wait_per_prompt cag \<le> elapsed_after add cag (length polls) \<longrightarrow>
      claude_wait_for_response add cag polls = (Returned None, cag))"
proof -
  have a: "fst (wait_for_response ag (env\<lparr>samples := xs, final_response := r\<rparr>)) = Returned None"
    if h: "\<forall>i<60. \<not> sp_generating (start_probes env i)
            \<and> \<not> articles_before env < sp_count (start_probes env i)"
  proof -
    from h have "\<forall>j<60. \<not> sp_generating (start_probes env (0 + j))
            \<and> \<not> articles_before env < sp_count (start_probes env (0 + j))" by simp
    from wait_for_start_quiet[OF this]
    show ?thesis
      by (simp add: wait_for_response_def Let_def split: start_result.splits)
  qed
  have b: "fst (claude_wait_for_response add cag polls) \<noteq> Returned (Some t)"
    if "\<forall>p\<in>set polls. claude_quiet 1 p"
    using claude_wait_quiet[OF that] by (simp add: claude_wait_for_response_def)
  have c: "claude_wait_for_response add cag polls = (Returned None, cag)"
    if "(\<forall>p\<in>set polls. claude_quiet 1 p) \<and>
      c_max_wait_per_prompt cag \<le> elapsed_after add cag (length polls)"
    using that claude_wait_quiet_none[of polls cag add 0]
    by (simp add: claude_wait_for_response_def elapsed_after_def)
  from a b c show ?thesis by blast
qed

definition default_claude :: ClaudeWebAgent where
  "default_claude = \<lparr> c_max_wait_per_prompt = 1800, c_check_interval = 2, messages = [] \<rparr>"

definition idle_poll :: claude_poll where
  "idle_poll = \<lparr> cp_shutdown = False, cp_state = READY, cp_responses = Some 0,
                  cp_final_state = READY, cp_response = None \<rparr>"

definition running_poll :: claude_poll where
  "running_poll = \<lparr> cp_shutdown = False, cp_state = RUNNING, cp_responses = Some 1,
                  cp_final_state = RUNNING, cp_response = None \<rparr>"

definition done_poll :: claude_poll where
  "done_poll = \<lparr> cp_shutdown = False, cp_state = READY, cp_responses = Some 2,
                  cp_final_state = READY, cp_response = Some [79, 75] \<rparr>"

definition late_start :: "claude_poll list" where
  "late_start = replicate 60 idle_poll @ [running_poll, done_poll]"

text \<open>
  C3 as stated fails on the Claude agent: with the default settings (\<open>int\<close>s, added
  exactly), 60 polls (120 seconds) with no indicator and no response element at all, then
  a poll that shows \<open>RUNNING\<close>, then a finished response: the response is returned.
\<close>

theorem claude_late_start_accepted:
  "quiet_until int_add 120 (c_check_interval default_claude) 0 0 late_start \<and>
   fst (claude_wait_for_response int_add default_claude late_start) = Returned (Some [79, 75])"
  unfolding late_start_def default_claude_def idle_poll_def running_poll_def done_poll_def
    claude_wait_for_response_def
  by (simp add: numeral_eq_Suc claude_quiet_def int_add_def)

definition silent_env :: wait_env where
  "silent_env =
     \<lparr> articles_before = 2,
       start_probes = (\<lambda>i. \<lparr> sp_shutdown = False, sp_generating = False, sp_count = 2 \<rparr>),
       samples = [], final_response = None \<rparr>"

definition default_chatgpt :: ChatGPTWebAgent where
  "default_chatgpt =
     \<lparr> max_wait_per_prompt = 1800, check_interval = 3, agent_mode = True,
       baseline_article_count = 0, baseline_set = False \<rparr>"

definition short_claude :: ClaudeWebAgent where
  "short_claude = \<lparr> c_max_wait_per_prompt = 4, c_check_interval = 2, messages = [] \<rparr>"

theorem no_start_returns_none_witness:
  "fst (wait_for_response default_chatgpt
          (silent_env\<lparr>samples := [still_sample 400], final_response := Some (replicate 51 65)\<rparr>))
     = Returned None \<and>
   fst (claude_wait_for_response int_add short_claude [idle_poll, idle_poll])
     \<noteq> Returned (Some [79, 75]) \<and>
   elapsed_after int_add short_claude 2 = 4 \<and>
   claude_wait_for_response int_add short_claude [idle_poll, idle_poll]
     = (Returned None, short_claude)"
proof -
  have h1: "\<forall>i<60. \<not> sp_generating (start_probes silent_env i)
              \<and> \<not> articles_before silent_env < sp_count (start_probes silent_env i)"
    by (simp add: silent_env_def)
  have e: "elapsed_after int_add short_claude 2 = 4"
    by (simp add: elapsed_after_def int_add_def short_claude_def numeral_2_eq_2)
  have q: "\<forall>p\<in>set [idle_poll, idle_poll]. claude_quiet 1 p"
    by (simp add: claude_quiet_def idle_poll_def)
  have h2: "(\<forall>p\<in>set [idle_poll, idle_poll]. claude_quiet 1 p) \<and>
      c_max_wait_per_prompt short_claude
        \<le> elapsed_after int_add short_claude (length [idle_poll, idle_poll])"
    by (simp add: elapsed_after_def int_add_def short_claude_def claude_quiet_def idle_poll_def)
  from no_start_returns_none [where env = silent_env and ag = default_chatgpt
      and xs = "[still_sample 400]" and r = "Some (replicate 51 65)"
      and polls = "[idle_poll, idle_poll]" and cag = short_claude and add = int_add
      and t = "[79, 75]"] h1 q h2 e
  show ?thesis by blast
qed

text \<open>
  What \<open>navigate_to_new_chat\<close> of the ChatGPT agent returns: true on a loaded page that
  asks for authentication; false only when \<open>goto\<close>, \<open>title\<close> or the reload raised,
  or the chat input was attached neither before nor after the reload.
\<close>

lemma chatgpt_navigate_contract:
  "(goto_ok ob \<and> title_ok ob \<and> get_state (landed ob) = AUTH_REQUIRED
      \<longrightarrow> fst (navigate_to_new_chat ag ob)) \<and>
   (\<not> fst (navigate_to_new_chat ag ob) \<longrightarrow>
      \<not> goto_ok ob \<or> \<not> title_ok ob \<or>
      (\<not> input_initial ob \<and> (\<not> reload_ok ob \<or> \<not> input_after_reload ob)))"
  by (auto simp: navigate_to_new_chat_def Let_def)

definition claude_login_page :: claude_page where
  "claude_login_page =
     \<lparr> rate_limit_shown = Some False, login_visible = Some True,
       stop_visible = False, input_visible = False \<rparr>"

definition chatgpt_login_page :: chatgpt_page where
  "chatgpt_login_page =
     \<lparr> url_on_domain = True,
       dom = Some \<lparr> hasLogin = True, hasStop = False, hasThinking = False, hasInput = True \<rparr> \<rparr>"

text \<open>
  C8. The Claude agent breaks the contract: on a page that loaded and shows the login
  link, its \<open>get_state\<close> is \<open>AUTH_REQUIRED\<close> and \<open>navigate_to_new_chat\<close> returns false.
  The ChatGPT agent returns true on its login page.
\<close>

theorem claude_navigate_fails_on_login_page:
  "claude_get_state claude_login_page = AUTH_REQUIRED \<and>
   claude_navigate_to_new_chat \<lparr> c_goto_ok = True, c_landed = claude_login_page \<rparr> = False \<and>
   get_state chatgpt_login_page = AUTH_REQUIRED \<and>
   fst (navigate_to_new_chat default_chatgpt
          \<lparr> goto_ok = True, title_ok = True, landed = chatgpt_login_page,
            input_initial = False, reload_ok = True, input_after_reload = False \<rparr>) = True"
  by (simp add: claude_get_state_def claude_navigate_to_new_chat_def claude_login_page_def
      get_state_def navigate_to_new_chat_def chatgpt_login_page_def Let_def)


section \<open>The runner (engine/runner.py)\<close>

text \<open>
  \<open>mark_json_deprecated\<close>: nothing when the file does not exist; otherwise every task of
  the document is marked and the document written back; a failure is logged, not raised.
\<close>

definition mark_json_deprecated :: "filesystem \<Rightarrow> path \<Rightarrow> string \<Rightarrow> filesystem" where
  "mark_json_deprecated fs json_path reason =
     (case files fs json_path of
        None \<Rightarrow> fs
      | Some d \<Rightarrow>
          (case write_file fs json_path
                  (d\<lparr>tasks := map (\<lambda>t. t\<lparr>deprecated := True, deprecated_reason := Some reason\<rparr>)
                                 (tasks d)\<rparr>) of
             Inl e \<Rightarrow> fs
           | Inr fs' \<Rightarrow> fs'))"

text \<open>
  The settings that \<open>run_automation\<close> reads. \<open>max_sec_per_attempt\<close> and
  \<open>sleep_between_retries\<close> only set how long the guard and the back-off sleep: whether
  the guard fired is an observation below.
\<close>

record config =
  max_agent_attempts :: int
  max_total_attempts :: int
  max_sec_per_task :: real
  no_hold :: bool
  files_to_upload :: "string list"
  cfg_task_name :: string
  cfg_task_source :: string
  cfg_agent_name :: string
  cfg_prompt_version :: int
  json_logs_dir :: string

text \<open>
  Phase 1. The observations: whether the browser launch and \<open>new_page\<close> return, the
  result of \<open>navigate_to_new_chat\<close>, the state read after it, the states read at the
  polls of the login wait, and the result of \<open>upload_files\<close>.
\<close>

record phase1_obs =
  launch_ok :: bool
  navigate_result :: bool
  state_after_navigate :: AgentState
  login_polls :: "nat \<Rightarrow> AgentState"
  upload_result :: bool

text \<open>The login wait: a poll every 10 seconds while \<open>elapsed < 300\<close>, left at the first \<open>READY\<close>.\<close>

fun login_wait :: "(nat \<Rightarrow> AgentState) \<Rightarrow> nat \<Rightarrow> nat \<Rightarrow> AgentState \<Rightarrow> AgentState" where
  "login_wait polls k 0 state = state"
| "login_wait polls k (Suc n) state =
     (if polls k = READY then polls k else login_wait polls (Suc k) n (polls k))"

definition phase1 :: "config \<Rightarrow> phase1_obs \<Rightarrow> exn + unit" where
  "phase1 cfg ob =
     (if \<not> launch_ok ob then Inl OtherException
      else if \<not> navigate_result ob then Inl (PipelineError NAVIGATION_FAILED)
      else
        let state = state_after_navigate ob;
            state' = (if state = AUTH_REQUIRED then login_wait (login_polls ob) 0 30 state
                      else state)
        in
          if state = AUTH_REQUIRED \<and> state' \<noteq> READY then Inl (PipelineError AUTH_FAILED)
          else if state' = STATE_RATE_LIMITED then Inl (PipelineError RATE_LIMITED)
          else if files_to_upload cfg \<noteq> [] \<and> \<not> upload_result ob
            then Inl (PipelineError UPLOAD_FAILED)
          else Inr ())"

text \<open>
  Phase 2. The observations: the clock readings of the logger, the calls that the agent
  makes on the logger while it processes the prompts, the result of
  \<open>process_all_prompts\<close> (\<open>None\<close>: it raises), whether the guard had fired when that
  result is classified and whether it fired later in the attempt, the result of
  \<open>download_all_artifacts\<close> (\<open>None\<close>: it raises), the validator's verdict on each file,
  whether renaming returns, whether saving the history and the upload return, and
  whether the shutdown event is ever set while the browser is held open. \<open>signalled\<close>
  of a pass: a signal handler set the shutdown event during it. The guard sets the
  event when it fires, and \<open>finally\<close> clears the event when the guard has fired.
\<close>

datatype logger_call = Start_prompt utext instant | End_prompt bool int instant

record phase2_obs =
  logger_clock :: instant
  start_clock :: instant
  prompt_calls :: "logger_call list"
  prompts_result :: "bool option"
  timed_out_early :: bool
  timed_out_late :: bool
  download_result :: "string list option"
  validation :: "string \<Rightarrow> bool \<times> TaskStatus"
  rename_ok :: bool
  end_clock :: instant
  after_success_ok :: bool
  hold_released :: bool

record attempt_obs =
  elapsed_at_check :: real
  signal_before_check :: bool
  signalled :: bool
  p1 :: phase1_obs
  p2 :: phase2_obs

text \<open>\<open>f.lower().endswith((".xlsx", ".xls"))\<close>.\<close>

definition lower_char :: "char \<Rightarrow> char" where
  "lower_char c =
     (if 65 \<le> (of_char c :: nat) \<and> (of_char c :: nat) \<le> 90
      then char_of ((of_char c :: nat) + 32) else c)"

definition endswith :: "string \<Rightarrow> string \<Rightarrow> bool" where
  "endswith s suf = (length suf \<le> length s \<and> drop (length s - length suf) s = suf)"

definition is_excel :: "string \<Rightarrow> bool" where
  "is_excel f = (endswith (map lower_char f) ''.xlsx'' \<or> endswith (map lower_char f) ''.xls'')"

text \<open>
  How the body of the inner \<open>try\<close> goes, up to the point where the record is closed:
  a failure branch closes it with a status, an exception is raised while it is open, or
  every check has passed.
\<close>

datatype body_end = Closed TaskStatus | Raised | Passed

definition agent_body :: "phase2_obs \<Rightarrow> body_end" where
  "agent_body ob =
     (case prompts_result ob of
        None \<Rightarrow> Raised
      | Some False \<Rightarrow> Closed (if timed_out_early ob then TIMEOUT else PROMPT_FAILED)
      | Some True \<Rightarrow>
          (case download_result ob of
             None \<Rightarrow> Raised
           | Some downloaded_files \<Rightarrow>
               if downloaded_files = [] then Closed DOWNLOAD_FAILED
               else
                 let excel_files = filter is_excel downloaded_files in
                   if excel_files = [] then Closed DOWNLOAD_FAILED
                   else
                     (case find (\<lambda>f. \<not> fst (validation ob f)) excel_files of
                        Some f \<Rightarrow> Closed (snd (validation ob f))
                      | None \<Rightarrow> if rename_ok ob then Passed else Raised)))"

record run_state =
  agent_attempts :: int
  agent_json_paths :: "path list"
  task_success :: bool
  shutdown_event :: bool
  disk :: filesystem

text \<open>The calls of the agent on the logger that was wired into it.\<close>

fun agent_logging ::
  "CompletionLogger \<Rightarrow> filesystem \<Rightarrow> logger_call list \<Rightarrow> CompletionLogger \<times> filesystem" where
  "agent_logging lg fs [] = (lg, fs)"
| "agent_logging lg fs (Start_prompt text now # cs) =
     (case start_prompt lg fs text now of (lg', fs') \<Rightarrow> agent_logging lg' fs' cs)"
| "agent_logging lg fs (End_prompt ok n now # cs) =
     (case end_prompt lg fs ok n now of (lg', fs') \<Rightarrow> agent_logging lg' fs' cs)"

text \<open>
  \<open>agent_attempts += 1; completion_logger.end_task(status);
  agent_json_paths.append(completion_logger.session_file)\<close>: the three statements of
  every failure branch and of the success branch.
\<close>

definition close_record ::
  "run_state \<Rightarrow> CompletionLogger \<Rightarrow> TaskStatus \<Rightarrow> instant \<Rightarrow> run_state \<times> CompletionLogger" where
  "close_record s lg status now =
     (case end_task lg (disk s) status now of
        (lg', fs') \<Rightarrow>
          (s\<lparr>agent_attempts := agent_attempts s + 1, disk := fs',
             agent_json_paths := agent_json_paths s @ [session_file lg']\<rparr>, lg'))"

text \<open>The handler \<open>except Exception\<close> of phase 2.\<close>

definition unexpected_error :: "run_state \<Rightarrow> CompletionLogger option \<Rightarrow> instant \<Rightarrow> run_state" where
  "unexpected_error s completion_logger now =
     (let s1 = s\<lparr>agent_attempts := agent_attempts s + 1\<rparr> in
        case completion_logger of
          None \<Rightarrow> s1
        | Some lg \<Rightarrow>
            (case current_task lg of
               None \<Rightarrow> s1
             | Some t \<Rightarrow>
                 (case end_task lg (disk s1) UNKNOWN now of
                    (lg', fs') \<Rightarrow>
                      s1\<lparr>disk := fs',
                         agent_json_paths := agent_json_paths s1 @ [session_file lg']\<rparr>)))"

text \<open>
  One pass of the loop body after \<open>total_attempts += 1\<close>. \<open>Next\<close> is \<open>continue\<close>,
  \<open>Stop\<close> is \<open>break\<close>, \<open>Propagates\<close> an exception that leaves \<open>run_automation\<close>,
  \<open>Holds_forever\<close> the hold loop that no shutdown event ends.
\<close>

datatype attempt_end = Next run_state | Stop run_state | Propagates | Holds_forever

definition phase2 :: "config \<Rightarrow> int \<Rightarrow> attempt_obs \<Rightarrow> run_state \<Rightarrow> attempt_end" where
  "phase2 cfg tot ob s =
     (case new_logger (json_logs_dir cfg) (Some (cfg_task_name cfg)) (cfg_agent_name cfg)
             (cfg_prompt_version cfg) (cfg_task_source cfg) (logger_clock (p2 ob)) (disk s) of
        Inl e \<Rightarrow>
          Next ((unexpected_error s None (end_clock (p2 ob)))
                  \<lparr>shutdown_event := (shutdown_event s \<or> signalled ob)\<rparr>)
      | Inr (lg0, fs0) \<Rightarrow>
          (case start_task lg0 fs0 (cfg_task_name cfg) tot (start_clock (p2 ob)) of
             (lg1, fs1) \<Rightarrow>
               (case agent_logging lg1 fs1 (prompt_calls (p2 ob)) of
                  (lg2, fs2) \<Rightarrow>
                    let s2 = s\<lparr>disk := fs2\<rparr>;
                        after_finally =
                          (\<lambda>st. st\<lparr>shutdown_event :=
                                     (if timed_out_early (p2 ob) \<or> timed_out_late (p2 ob)
                                      then False else shutdown_event st \<or> signalled ob)\<rparr>)
                    in
                      (case agent_body (p2 ob) of
                         Closed status \<Rightarrow>
                           Next (after_finally (fst (close_record s2 lg2 status (end_clock (p2 ob)))))
                       | Raised \<Rightarrow>
                           Next (after_finally (unexpected_error s2 (Some lg2) (end_clock (p2 ob))))
                       | Passed \<Rightarrow>
                           (case close_record s2 lg2 SUCCESS (end_clock (p2 ob)) of
                              (s3, lg3) \<Rightarrow>
                                if \<not> after_success_ok (p2 ob)
                                then Next (after_finally
                                             (unexpected_error s3 (Some lg3) (end_clock (p2 ob))))
                                else if \<not> no_hold cfg \<and> \<not> hold_released (p2 ob)
                                then Holds_forever
                                else Stop (after_finally (s3\<lparr>task_success := True\<rparr>)))))))"

definition attempt :: "config \<Rightarrow> int \<Rightarrow> attempt_obs \<Rightarrow> run_state \<Rightarrow> attempt_end" where
  "attempt cfg tot ob s =
     (case phase1 cfg (p1 ob) of
        Inl (PipelineError status) \<Rightarrow>
          Next (s\<lparr>shutdown_event := (shutdown_event s \<or> signalled ob)\<rparr>)
      | Inl OtherException \<Rightarrow> Propagates
      | Inr u \<Rightarrow> phase2 cfg tot ob s)"

text \<open>
  The retry loop. \<open>env n\<close> is what the \<open>n\<close>-th pass observes, the readings of the four
  checks at its top included. \<open>tot\<close> is \<open>total_attempts\<close>.
\<close>

datatype loop_end = Loop_done int run_state | Loop_raised | Loop_hangs

function run_loop :: "config \<Rightarrow> (int \<Rightarrow> attempt_obs) \<Rightarrow> int \<Rightarrow> run_state \<Rightarrow> loop_end" where
  "run_loop cfg env tot s =
     (if tot \<ge> max_total_attempts cfg then Loop_done tot s
      else if agent_attempts s \<ge> max_agent_attempts cfg then Loop_done tot s
      else if max_sec_per_task cfg > 0
              \<and> elapsed_at_check (env (tot + 1)) \<ge> max_sec_per_task cfg
        then Loop_done tot s
      else if shutdown_event s \<or> signal_before_check (env (tot + 1)) then Loop_done tot s
      else
        (case attempt cfg (tot + 1) (env (tot + 1)) s of
           Next s' \<Rightarrow> run_loop cfg env (tot + 1) s'
         | Stop s' \<Rightarrow> Loop_done (tot + 1) s'
         | Propagates \<Rightarrow> Loop_raised
         | Holds_forever \<Rightarrow> Loop_hangs))"
  by pat_completeness auto
termination
  by (relation "measure (\<lambda>(cfg, env, tot, s). nat (max_total_attempts cfg - tot))") auto

declare run_loop.simps [simp del]

text \<open>After the loop: every path but the last is marked, when there is more than one.\<close>

definition deprecate_earlier :: "path list \<Rightarrow> filesystem \<Rightarrow> filesystem" where
  "deprecate_earlier paths fs =
     (if length paths > 1
      then fold (\<lambda>p f. mark_json_deprecated f p ''Superseded by later attempt'') (butlast paths) fs
      else fs)"

record run_report =
  returned :: bool
  total_attempts :: int
  final_agent_attempts :: int
  json_paths :: "path list"
  final_disk :: filesystem

datatype run_outcome = Finished run_report | Crashed | Never_returns

text \<open>
  \<open>run_automation\<close>: \<open>create_run_directory\<close> (its \<open>mkdir\<close> may raise), the loop, the
  marking of the earlier records, and the return of \<open>task_success\<close>.
\<close>

definition run_automation :: "config \<Rightarrow> (int \<Rightarrow> attempt_obs) \<Rightarrow> filesystem \<Rightarrow> run_outcome" where
  "run_automation cfg env fs =
     (if \<not> mkdir_ok fs then Crashed
      else
        case run_loop cfg env 0
               \<lparr> agent_attempts = 0, agent_json_paths = [], task_success = False,
                 shutdown_event = False, disk = fs \<rparr> of
          Loop_done tot s \<Rightarrow>
            Finished \<lparr> returned = task_success s, total_attempts = tot,
                       final_agent_attempts = agent_attempts s,
                       json_paths = agent_json_paths s,
                       final_disk = deprecate_earlier (agent_json_paths s) (disk s) \<rparr>
        | Loop_raised \<Rightarrow> Crashed
        | Loop_hangs \<Rightarrow> Never_returns)"


section \<open>Properties of the runner\<close>

lemma write_file_flags:
  "write_file fs p d = Inr fs' \<Longrightarrow> writable fs' = writable fs \<and> mkdir_ok fs' = mkdir_ok fs"
  by (auto simp: write_file_def split: if_splits)

lemma start_task_flags [simp]:
  "writable (snd (start_task lg fs nm a now)) = writable fs"
  "mkdir_ok (snd (start_task lg fs nm a now)) = mkdir_ok fs"
  by (simp_all add: start_task_def Let_def)

lemma end_task_flags [simp]:
  "writable (snd (end_task lg fs st now)) = writable fs"
  "mkdir_ok (snd (end_task lg fs st now)) = mkdir_ok fs"
  by (simp_all add: end_task_def Let_def split: option.splits)

lemma start_prompt_flags [simp]:
  "writable (snd (start_prompt lg fs t now)) = writable fs"
  "mkdir_ok (snd (start_prompt lg fs t now)) = mkdir_ok fs"
  by (simp_all add: start_prompt_def Let_def)

lemma end_prompt_flags [simp]:
  "writable (snd (end_prompt lg fs ok n now)) = writable fs"
  "mkdir_ok (snd (end_prompt lg fs ok n now)) = mkdir_ok fs"
  by (simp_all add: end_prompt_def Let_def split: option.splits)

lemma agent_logging_flags [simp]:
  "writable (snd (agent_logging lg fs cs)) = writable fs"
  "mkdir_ok (snd (agent_logging lg fs cs)) = mkdir_ok fs"
  by (induction lg fs cs rule: agent_logging.induct) (simp_all add: split_beta)

lemma mark_json_deprecated_flags [simp]:
  "writable (mark_json_deprecated fs p r) = writable fs"
  "mkdir_ok (mark_json_deprecated fs p r) = mkdir_ok fs"
  by (auto simp: mark_json_deprecated_def write_file_def split: option.splits)

lemma close_record_simps [simp]:
  "agent_attempts (fst (close_record s lg st now)) = agent_attempts s + 1"
  "task_success (fst (close_record s lg st now)) = task_success s"
  "shutdown_event (fst (close_record s lg st now)) = shutdown_event s"
  "writable (disk (fst (close_record s lg st now))) = writable (disk s)"
  "mkdir_ok (disk (fst (close_record s lg st now))) = mkdir_ok (disk s)"
  by (simp_all add: close_record_def split_beta)

lemma unexpected_error_simps [simp]:
  "agent_attempts (unexpected_error s lgo now) = agent_attempts s + 1"
  "task_success (unexpected_error s lgo now) = task_success s"
  "shutdown_event (unexpected_error s lgo now) = shutdown_event s"
  "writable (disk (unexpected_error s lgo now)) = writable (disk s)"
  "mkdir_ok (disk (unexpected_error s lgo now)) = mkdir_ok (disk s)"
  by (simp_all add: unexpected_error_def Let_def split_beta split: option.splits)

text \<open>What a pass that got through phase 1 does to the counters.\<close>

definition finally_event :: "attempt_obs \<Rightarrow> run_state \<Rightarrow> bool" where
  "finally_event ob s =
     (if timed_out_early (p2 ob) \<or> timed_out_late (p2 ob) then False
      else shutdown_event s \<or> signalled ob)"

lemma phase2_closed:
  assumes "mkdir_ok (disk s)" "agent_body (p2 ob) = Closed st"
  shows "\<exists>s'. phase2 cfg tot ob s = Next s' \<and> agent_attempts s' = agent_attempts s + 1 \<and>
           task_success s' = task_success s \<and> shutdown_event s' = finally_event ob s \<and>
           mkdir_ok (disk s') \<and> writable (disk s') = writable (disk s)"
  using assms
  by (simp add: phase2_def new_logger_def Let_def split_beta finally_event_def)

lemma phase2_raised:
  assumes "mkdir_ok (disk s)" "agent_body (p2 ob) = Raised"
  shows "\<exists>s'. phase2 cfg tot ob s = Next s' \<and> agent_attempts s' = agent_attempts s + 1 \<and>
           task_success s' = task_success s \<and> shutdown_event s' = finally_event ob s \<and>
           mkdir_ok (disk s') \<and> writable (disk s') = writable (disk s)"
  using assms
  by (simp add: phase2_def new_logger_def Let_def split_beta finally_event_def)

lemma phase2_passed:
  assumes "mkdir_ok (disk s)" "agent_body (p2 ob) = Passed" "after_success_ok (p2 ob)"
    "no_hold cfg \<or> hold_released (p2 ob)"
  shows "\<exists>s'. phase2 cfg tot ob s = Stop s' \<and> agent_attempts s' = agent_attempts s + 1 \<and>
           task_success s' \<and> mkdir_ok (disk s') \<and> writable (disk s') = writable (disk s)"
  using assms
  by (auto simp add: phase2_def new_logger_def Let_def split_beta finally_event_def)

lemma attempt_pipeline:
  assumes "phase1 cfg (p1 ob) = Inl (PipelineError st)"
  shows "attempt cfg tot ob s = Next (s\<lparr>shutdown_event := (shutdown_event s \<or> signalled ob)\<rparr>)"
  using assms by (simp add: attempt_def)

lemma phase1_statuses:
  "phase1 cfg ob = Inl (PipelineError st) \<Longrightarrow>
   st = NAVIGATION_FAILED \<or> st = AUTH_FAILED \<or> st = RATE_LIMITED \<or> st = UPLOAD_FAILED"
  by (auto simp: phase1_def Let_def split: if_splits)

lemma run_loop_step:
  assumes "tot < max_total_attempts cfg" "agent_attempts s < max_agent_attempts cfg"
    "\<not> (max_sec_per_task cfg > 0 \<and> elapsed_at_check (env (tot + 1)) \<ge> max_sec_per_task cfg)"
    "\<not> shutdown_event s" "\<not> signal_before_check (env (tot + 1))"
  shows "run_loop cfg env tot s =
     (case attempt cfg (tot + 1) (env (tot + 1)) s of
        Next s' \<Rightarrow> run_loop cfg env (tot + 1) s'
      | Stop s' \<Rightarrow> Loop_done (tot + 1) s'
      | Propagates \<Rightarrow> Loop_raised
      | Holds_forever \<Rightarrow> Loop_hangs)"
  using assms by (subst run_loop.simps) auto

lemma run_loop_exhausted:
  "max_total_attempts cfg \<le> tot \<Longrightarrow> run_loop cfg env tot s = Loop_done tot s"
  by (subst run_loop.simps) simp

definition pipeline_fails :: "config \<Rightarrow> attempt_obs \<Rightarrow> bool" where
  "pipeline_fails cfg ob = (case phase1 cfg (p1 ob) of Inl (PipelineError st) \<Rightarrow> True | _ \<Rightarrow> False)"

lemma pipeline_fails_attempt:
  "pipeline_fails cfg ob \<Longrightarrow>
   attempt cfg tot ob s = Next (s\<lparr>shutdown_event := (shutdown_event s \<or> signalled ob)\<rparr>)"
  by (auto simp: pipeline_fails_def attempt_def split: sum.splits exn.splits)

lemma run_loop_all_pipeline:
  assumes "\<forall>n. pipeline_fails cfg (env n)"
  shows "\<exists>tot' s'. run_loop cfg env tot s = Loop_done tot' s' \<and>
           agent_attempts s' = agent_attempts s \<and> agent_json_paths s' = agent_json_paths s \<and>
           disk s' = disk s \<and> task_success s' = task_success s \<and>
           tot \<le> tot' \<and> tot' \<le> max tot (max_total_attempts cfg)"
  using assms
proof (induction cfg env tot s rule: run_loop.induct)
  case (1 cfg env tot s)
  show ?case
  proof (cases "max_total_attempts cfg \<le> tot \<or> max_agent_attempts cfg \<le> agent_attempts s \<or>
      (max_sec_per_task cfg > 0 \<and> elapsed_at_check (env (tot + 1)) \<ge> max_sec_per_task cfg) \<or>
      shutdown_event s \<or> signal_before_check (env (tot + 1))")
    case True
    then have "run_loop cfg env tot s = Loop_done tot s"
      by (subst run_loop.simps) auto
    then show ?thesis by simp
  next
    case False
    let ?s' = "s\<lparr>shutdown_event := (shutdown_event s \<or> signalled (env (tot + 1)))\<rparr>"
    from 1(2) have a: "attempt cfg (tot + 1) (env (tot + 1)) s = Next ?s'"
      by (simp add: pipeline_fails_attempt)
    with False have r: "run_loop cfg env tot s = run_loop cfg env (tot + 1) ?s'"
      by (subst run_loop.simps) auto
    from False a 1(2) have "\<exists>tot' s'. run_loop cfg env (tot + 1) ?s' = Loop_done tot' s' \<and>
           agent_attempts s' = agent_attempts ?s' \<and> agent_json_paths s' = agent_json_paths ?s' \<and>
           disk s' = disk ?s' \<and> task_success s' = task_success ?s' \<and>
           tot + 1 \<le> tot' \<and> tot' \<le> max (tot + 1) (max_total_attempts cfg)"
      by (intro 1(1)) auto
    with r False show ?thesis by auto
  qed
qed

definition undisturbed :: "config \<Rightarrow> attempt_obs \<Rightarrow> bool" where
  "undisturbed cfg ob =
     (\<not> signal_before_check ob \<and> \<not> signalled ob \<and>
      \<not> (max_sec_per_task cfg > 0 \<and> elapsed_at_check ob \<ge> max_sec_per_task cfg))"

lemma run_loop_all_pipeline_exhausts:
  assumes "\<forall>n. pipeline_fails cfg (env n) \<and> undisturbed cfg (env n)"
    "agent_attempts s < max_agent_attempts cfg" "\<not> shutdown_event s"
    "tot \<le> max_total_attempts cfg"
  shows "\<exists>s'. run_loop cfg env tot s = Loop_done (max_total_attempts cfg) s' \<and>
           agent_attempts s' = agent_attempts s \<and> agent_json_paths s' = agent_json_paths s \<and>
           disk s' = disk s \<and> task_success s' = task_success s"
  using assms
proof (induction cfg env tot s rule: run_loop.induct)
  case (1 cfg env tot s)
  show ?case
  proof (cases "max_total_attempts cfg \<le> tot")
    case True
    with 1(5) have "tot = max_total_attempts cfg" by simp
    with run_loop_exhausted[OF True, of env s] show ?thesis by simp
  next
    case False
    let ?s' = "s\<lparr>shutdown_event := (shutdown_event s \<or> signalled (env (tot + 1)))\<rparr>"
    from 1(2) have u: "undisturbed cfg (env (tot + 1))" by blast
    from 1(2) have a: "attempt cfg (tot + 1) (env (tot + 1)) s = Next ?s'"
      by (simp add: pipeline_fails_attempt)
    from False u 1(3,4) a have r: "run_loop cfg env tot s = run_loop cfg env (tot + 1) ?s'"
      by (subst run_loop.simps) (auto simp: undisturbed_def)
    have "\<exists>s'. run_loop cfg env (tot + 1) ?s' = Loop_done (max_total_attempts cfg) s' \<and>
           agent_attempts s' = agent_attempts ?s' \<and> agent_json_paths s' = agent_json_paths ?s' \<and>
           disk s' = disk ?s' \<and> task_success s' = task_success ?s'"
      using False u 1(2,3,4) a
      by (intro 1(1)) (auto simp: undisturbed_def)
    with r show ?thesis by auto
  qed
qed

lemma deprecate_earlier_nil [simp]: "deprecate_earlier [] fs = fs"
  by (simp add: deprecate_earlier_def)

definition fresh_run :: "filesystem \<Rightarrow> run_state" where
  "fresh_run fs = \<lparr> agent_attempts = 0, agent_json_paths = [], task_success = False,
                    shutdown_event = False, disk = fs \<rparr>"

lemma run_automation_fresh:
  "run_automation cfg env fs =
     (if \<not> mkdir_ok fs then Crashed
      else case run_loop cfg env 0 (fresh_run fs) of
          Loop_done tot s \<Rightarrow>
            Finished \<lparr> returned = task_success s, total_attempts = tot,
                       final_agent_attempts = agent_attempts s,
                       json_paths = agent_json_paths s,
                       final_disk = deprecate_earlier (agent_json_paths s) (disk s) \<rparr>
        | Loop_raised \<Rightarrow> Crashed
        | Loop_hangs \<Rightarrow> Never_returns)"
  by (simp add: run_automation_def fresh_run_def)

lemma navigation_fails_pipeline:
  "launch_ok (p1 ob) \<Longrightarrow> \<not> navigate_result (p1 ob) \<Longrightarrow> pipeline_fails cfg ob"
  by (simp add: pipeline_fails_def phase1_def)

text \<open>
  C5. A pass whose phase 1 raises \<open>PipelineError\<close> (with one of the four statuses
  navigation, auth, rate limit, upload) is a \<open>continue\<close> that leaves \<open>agent_attempts\<close>,
  the list of record paths and the disk untouched. When navigation fails in every pass,
  \<open>run_automation\<close> returns false with \<open>agent_attempts = 0\<close>, no record path and the disk
  as it was; and when no signal arrives and the wall-clock budget is not used up, the
  loop stops with \<open>total_attempts = max_total_attempts\<close>.
\<close>

theorem pipeline_failure_leaves_no_record:
  "(phase1 cfg (p1 ob) = Inl (PipelineError st) \<longrightarrow>
      (st = NAVIGATION_FAILED \<or> st = AUTH_FAILED \<or> st = RATE_LIMITED \<or> st = UPLOAD_FAILED) \<and>
      (\<exists>s'. attempt cfg tot ob s = Next s' \<and> agent_attempts s' = agent_attempts s \<and>
            agent_json_paths s' = agent_json_paths s \<and> disk s' = disk s)) \<and>
   (mkdir_ok fs \<and> (\<forall>n. launch_ok (p1 (env n)) \<and> \<not> navigate_result (p1 (env n))) \<longrightarrow>
      (\<exists>r. run_automation cfg env fs = Finished r \<and> \<not> returned r \<and>
           final_agent_attempts r = 0 \<and> json_paths r = [] \<and> final_disk r = fs \<and>
           total_attempts r \<le> max 0 (max_total_attempts cfg))) \<and>
   (mkdir_ok fs \<and> 0 < max_agent_attempts cfg \<and> 0 \<le> max_total_attempts cfg \<and>
    (\<forall>n. launch_ok (p1 (env n)) \<and> \<not> navigate_result (p1 (env n)) \<and> undisturbed cfg (env n)) \<longrightarrow>
      (\<exists>r. run_automation cfg env fs = Finished r \<and> \<not> returned r \<and>
           total_attempts r = max_total_attempts cfg \<and>
           final_agent_attempts r = 0 \<and> json_paths r = [] \<and> final_disk r = fs))"
proof -
  have a: "(st = NAVIGATION_FAILED \<or> st = AUTH_FAILED \<or> st = RATE_LIMITED \<or> st = UPLOAD_FAILED) \<and>
      (\<exists>s'. attempt cfg tot ob s = Next s' \<and> agent_attempts s' = agent_attempts s \<and>
            agent_json_paths s' = agent_json_paths s \<and> disk s' = disk s)"
    if "phase1 cfg (p1 ob) = Inl (PipelineError st)"
    using that phase1_statuses[OF that] by (simp add: attempt_pipeline)
  have b: "\<exists>r. run_automation cfg env fs = Finished r \<and> \<not> returned r \<and>
           final_agent_attempts r = 0 \<and> json_paths r = [] \<and> final_disk r = fs \<and>
           total_attempts r \<le> max 0 (max_total_attempts cfg)"
    if h: "mkdir_ok fs \<and> (\<forall>n. launch_ok (p1 (env n)) \<and> \<not> navigate_result (p1 (env n)))"
  proof -
    from h have "\<forall>n. pipeline_fails cfg (env n)" by (simp add: navigation_fails_pipeline)
    from run_loop_all_pipeline[OF this, of 0 "fresh_run fs"]
    obtain tot' s' where "run_loop cfg env 0 (fresh_run fs) = Loop_done tot' s'"
      "agent_attempts s' = 0" "agent_json_paths s' = []" "disk s' = fs" "\<not> task_success s'"
      "tot' \<le> max 0 (max_total_attempts cfg)"
      by (auto simp: fresh_run_def)
    with h show ?thesis by (simp add: run_automation_fresh)
  qed
  have c: "\<exists>r. run_automation cfg env fs = Finished r \<and> \<not> returned r \<and>
           total_attempts r = max_total_attempts cfg \<and>
           final_agent_attempts r = 0 \<and> json_paths r = [] \<and> final_disk r = fs"
    if h: "mkdir_ok fs \<and> 0 < max_agent_attempts cfg \<and> 0 \<le> max_total_attempts cfg \<and>
      (\<forall>n. launch_ok (p1 (env n)) \<and> \<not> navigate_result (p1 (env n)) \<and> undisturbed cfg (env n))"
  proof -
    from h have "\<forall>n. pipeline_fails cfg (env n) \<and> undisturbed cfg (env n)"
      by (simp add: navigation_fails_pipeline)
    from run_loop_all_pipeline_exhausts[OF this, of "fresh_run fs" 0] h
    obtain s' where "run_loop cfg env 0 (fresh_run fs) = Loop_done (max_total_attempts cfg) s'"
      "agent_attempts s' = 0" "agent_json_paths s' = []" "disk s' = fs" "\<not> task_success s'"
      by (auto simp: fresh_run_def)
    with h show ?thesis by (simp add: run_automation_fresh)
  qed
  from a b c show ?thesis by blast
qed

text \<open>Settings and observations for scripted runs.\<close>

definition default_config :: config where
  "default_config =
     \<lparr> max_agent_attempts = 3, max_total_attempts = 10, max_sec_per_task = 0, no_hold = True,
       files_to_upload = [], cfg_task_name = ''task'', cfg_task_source = ''claude_web'',
       cfg_agent_name = ''claude_web'', cfg_prompt_version = 1, json_logs_dir = ''json_logs'' \<rparr>"

definition good_phase1 :: phase1_obs where
  "good_phase1 =
     \<lparr> launch_ok = True, navigate_result = True, state_after_navigate = READY,
       login_polls = (\<lambda>k. READY), upload_result = True \<rparr>"

definition failing_phase2 :: "instant \<Rightarrow> phase2_obs" where
  "failing_phase2 t =
     \<lparr> logger_clock = t, start_clock = t, prompt_calls = [], prompts_result = Some False,
       timed_out_early = False, timed_out_late = False, download_result = Some [],
       validation = (\<lambda>f. (True, SUCCESS)), rename_ok = True, end_clock = t + 50,
       after_success_ok = True, hold_released = False \<rparr>"

definition passing_phase2 :: "instant \<Rightarrow> phase2_obs" where
  "passing_phase2 t =
     (failing_phase2 t)\<lparr>prompts_result := Some True, download_result := Some [''Model.XLSX'']\<rparr>"

definition nav_fail :: attempt_obs where
  "nav_fail =
     \<lparr> elapsed_at_check = 0, signal_before_check = False, signalled = False,
       p1 = good_phase1\<lparr>navigate_result := False\<rparr>, p2 = failing_phase2 0 \<rparr>"

definition prompt_fail :: "instant \<Rightarrow> attempt_obs" where
  "prompt_fail t = nav_fail\<lparr>p1 := good_phase1, p2 := failing_phase2 t\<rparr>"

definition all_pass :: "instant \<Rightarrow> attempt_obs" where
  "all_pass t = nav_fail\<lparr>p1 := good_phase1, p2 := passing_phase2 t\<rparr>"

lemma nav_fail_phase1: "phase1 cfg (p1 nav_fail) = Inl (PipelineError NAVIGATION_FAILED)"
  by (simp add: nav_fail_def good_phase1_def phase1_def)

lemma good_phase1_passes: "files_to_upload cfg = [] \<Longrightarrow> phase1 cfg good_phase1 = Inr ()"
  by (simp add: good_phase1_def phase1_def)

lemma is_excel_example: "is_excel ''Model.XLSX''"
  by code_simp

lemma failing_phase2_body: "agent_body (failing_phase2 t) = Closed PROMPT_FAILED"
  by (simp add: agent_body_def failing_phase2_def)

lemma passing_phase2_body: "agent_body (passing_phase2 t) = Passed"
  by (simp add: agent_body_def failing_phase2_def passing_phase2_def is_excel_example)

theorem pipeline_failure_leaves_no_record_witness:
  "phase1 default_config (p1 nav_fail) = Inl (PipelineError NAVIGATION_FAILED) \<and>
   (\<exists>s'. attempt default_config 1 nav_fail (fresh_run plain_fs) = Next s' \<and>
         agent_attempts s' = 0 \<and> agent_json_paths s' = [] \<and> disk s' = plain_fs) \<and>
   (\<exists>r. run_automation default_config (\<lambda>n. nav_fail) plain_fs = Finished r \<and> \<not> returned r \<and>
        total_attempts r = 10 \<and> final_agent_attempts r = 0 \<and> json_paths r = [] \<and>
        final_disk r = plain_fs)"
proof -
  have h1: "phase1 default_config (p1 nav_fail) = Inl (PipelineError NAVIGATION_FAILED)"
    by (rule nav_fail_phase1)
  have h3: "mkdir_ok plain_fs \<and> 0 < max_agent_attempts default_config \<and>
      0 \<le> max_total_attempts default_config \<and>
      (\<forall>n::int. launch_ok (p1 nav_fail) \<and> \<not> navigate_result (p1 nav_fail) \<and>
         undisturbed default_config nav_fail)"
    by (simp add: plain_fs_def default_config_def nav_fail_def good_phase1_def undisturbed_def)
  from pipeline_failure_leaves_no_record [where cfg = default_config and ob = nav_fail
      and st = NAVIGATION_FAILED and tot = 1 and s = "fresh_run plain_fs" and fs = plain_fs
      and env = "\<lambda>n. nav_fail"] h1 h3
  show ?thesis by (simp add: fresh_run_def default_config_def)
qed

text \<open>
  C1. A pass that fails in phase 1 leaves \<open>agent_attempts\<close> as it was; a pass whose
  record is closed with a failure status, and a pass that succeeds, add one to it. For
  any run whose first two passes fail in phase 1, whose third pass closes its record with
  a failure status and whose fourth pass succeeds (budgets allowing four passes and two
  agent attempts, no signal, wall-clock budget not used up), \<open>run_automation\<close> returns
  true with \<open>total_attempts = 4\<close> and \<open>agent_attempts = 2\<close>.
\<close>

theorem retry_accounting:
  "(phase1 cfg (p1 ob) = Inl (PipelineError st) \<longrightarrow>
      (\<exists>s'. attempt cfg tot ob s = Next s' \<and> agent_attempts s' = agent_attempts s)) \<and>
   (phase1 cfg (p1 ob_c) = Inr () \<and> mkdir_ok (disk s_c) \<and> agent_body (p2 ob_c) = Closed st_c \<longrightarrow>
      (\<exists>s'. attempt cfg tot_c ob_c s_c = Next s' \<and> agent_attempts s' = agent_attempts s_c + 1)) \<and>
   (phase1 cfg (p1 ob_p) = Inr () \<and> mkdir_ok (disk s_p) \<and> agent_body (p2 ob_p) = Passed \<and>
    after_success_ok (p2 ob_p) \<and> (no_hold cfg \<or> hold_released (p2 ob_p)) \<longrightarrow>
      (\<exists>s'. attempt cfg tot_p ob_p s_p = Stop s' \<and> agent_attempts s' = agent_attempts s_p + 1 \<and>
            task_success s')) \<and>
   (mkdir_ok fs \<and> 4 \<le> max_total_attempts cfg \<and> 2 \<le> max_agent_attempts cfg \<and>
    undisturbed cfg (env 1) \<and> undisturbed cfg (env 2) \<and> undisturbed cfg (env 3) \<and>
    undisturbed cfg (env 4) \<and>
    pipeline_fails cfg (env 1) \<and> pipeline_fails cfg (env 2) \<and>
    phase1 cfg (p1 (env 3)) = Inr () \<and> agent_body (p2 (env 3)) = Closed st_f \<and>
    phase1 cfg (p1 (env 4)) = Inr () \<and> agent_body (p2 (env 4)) = Passed \<and>
    after_success_ok (p2 (env 4)) \<and> (no_hold cfg \<or> hold_released (p2 (env 4))) \<longrightarrow>
      (\<exists>r. run_automation cfg env fs = Finished r \<and> returned r \<and>
           total_attempts r = 4 \<and> final_agent_attempts r = 2))"
proof -
  have a: "\<exists>s'. attempt cfg tot ob s = Next s' \<and> agent_attempts s' = agent_attempts s"
    if "phase1 cfg (p1 ob) = Inl (PipelineError st)"
    using that by (simp add: attempt_pipeline)
  have b: "\<exists>s'. attempt cfg tot_c ob_c s_c = Next s' \<and> agent_attempts s' = agent_attempts s_c + 1"
    if "phase1 cfg (p1 ob_c) = Inr () \<and> mkdir_ok (disk s_c) \<and> agent_body (p2 ob_c) = Closed st_c"
    using that phase2_closed[of s_c ob_c st_c cfg tot_c] by (auto simp: attempt_def)
  have c: "\<exists>s'. attempt cfg tot_p ob_p s_p = Stop s' \<and> agent_attempts s' = agent_attempts s_p + 1 \<and>
            task_success s'"
    if "phase1 cfg (p1 ob_p) = Inr () \<and> mkdir_ok (disk s_p) \<and> agent_body (p2 ob_p) = Passed \<and>
      after_success_ok (p2 ob_p) \<and> (no_hold cfg \<or> hold_released (p2 ob_p))"
    using that phase2_passed[of s_p ob_p cfg tot_p] by (auto simp: attempt_def)
  have d: "\<exists>r. run_automation cfg env fs = Finished r \<and> returned r \<and>
           total_attempts r = 4 \<and> final_agent_attempts r = 2"
    if h: "mkdir_ok fs \<and> 4 \<le> max_total_attempts cfg \<and> 2 \<le> max_agent_attempts cfg \<and>
      undisturbed cfg (env 1) \<and> undisturbed cfg (env 2) \<and> undisturbed cfg (env 3) \<and>
      undisturbed cfg (env 4) \<and>
      pipeline_fails cfg (env 1) \<and> pipeline_fails cfg (env 2) \<and>
      phase1 cfg (p1 (env 3)) = Inr () \<and> agent_body (p2 (env 3)) = Closed st_f \<and>
      phase1 cfg (p1 (env 4)) = Inr () \<and> agent_body (p2 (env 4)) = Passed \<and>
      after_success_ok (p2 (env 4)) \<and> (no_hold cfg \<or> hold_released (p2 (env 4)))"
  proof -
    let ?s0 = "fresh_run fs"
    have u: "\<not> signal_before_check (env 1)" "\<not> signalled (env 1)"
        "\<not> signal_before_check (env 2)" "\<not> signalled (env 2)"
        "\<not> signal_before_check (env 3)" "\<not> signalled (env 3)"
        "\<not> signal_before_check (env 4)"
        "\<not> (max_sec_per_task cfg > 0 \<and> elapsed_at_check (env 1) \<ge> max_sec_per_task cfg)"
        "\<not> (max_sec_per_task cfg > 0 \<and> elapsed_at_check (env 2) \<ge> max_sec_per_task cfg)"
        "\<not> (max_sec_per_task cfg > 0 \<and> elapsed_at_check (env 3) \<ge> max_sec_per_task cfg)"
        "\<not> (max_sec_per_task cfg > 0 \<and> elapsed_at_check (env 4) \<ge> max_sec_per_task cfg)"
      using h by (auto simp: undisturbed_def)
    have s0: "agent_attempts ?s0 = 0" "\<not> shutdown_event ?s0" "disk ?s0 = fs"
      by (simp_all add: fresh_run_def)
    \<comment> \<open>pass 1: pipeline failure\<close>
    have a1: "attempt cfg 1 (env 1) ?s0 = Next ?s0"
      using h u s0 by (simp add: pipeline_fails_attempt fresh_run_def)
    have r1: "run_loop cfg env 0 ?s0 = run_loop cfg env 1 ?s0"
      using run_loop_step[of 0 cfg ?s0 env] h u s0 a1 by simp
    \<comment> \<open>pass 2: pipeline failure\<close>
    have a2: "attempt cfg 2 (env 2) ?s0 = Next ?s0"
      using h u s0 by (simp add: pipeline_fails_attempt fresh_run_def)
    have r2: "run_loop cfg env 1 ?s0 = run_loop cfg env 2 ?s0"
      using run_loop_step[of 1 cfg ?s0 env] h u s0 a2 by simp
    \<comment> \<open>pass 3: the record is closed with a failure status\<close>
    from phase2_closed[of ?s0 "env 3" st_f cfg 3] h s0
    obtain sa where p3: "phase2 cfg 3 (env 3) ?s0 = Next sa" "agent_attempts sa = 1"
      "shutdown_event sa = finally_event (env 3) ?s0" "mkdir_ok (disk sa)"
      by auto
    from p3(3) u s0 have q3: "\<not> shutdown_event sa" by (simp add: finally_event_def)
    have a3: "attempt cfg 3 (env 3) ?s0 = Next sa"
      using h p3 by (simp add: attempt_def)
    have r3: "run_loop cfg env 2 ?s0 = run_loop cfg env 3 sa"
      using run_loop_step[of 2 cfg ?s0 env] h u s0 a3 by simp
    \<comment> \<open>pass 4: success\<close>
    from phase2_passed[of sa "env 4" cfg 4] h p3
    obtain sb where p4: "phase2 cfg 4 (env 4) sa = Stop sb" "agent_attempts sb = 2"
      "task_success sb"
      by auto
    have a4: "attempt cfg 4 (env 4) sa = Stop sb"
      using h p4 by (simp add: attempt_def)
    have r4: "run_loop cfg env 3 sa = Loop_done 4 sb"
      using run_loop_step[of 3 cfg sa env] h u p3 q3 a4 by simp
    from r1 r2 r3 r4 have "run_loop cfg env 0 ?s0 = Loop_done 4 sb" by simp
    with h p4 show ?thesis by (simp add: run_automation_fresh)
  qed
  from a b c d show ?thesis by blast
qed

definition two_pipeline_one_agent_then_success :: "int \<Rightarrow> attempt_obs" where
  "two_pipeline_one_agent_then_success n =
     (if n = 1 \<or> n = 2 then nav_fail else if n = 3 then prompt_fail 1000 else all_pass 2000)"

theorem retry_accounting_witness:
  "(\<exists>s'. attempt default_config 1 nav_fail (fresh_run plain_fs) = Next s' \<and> agent_attempts s' = 0) \<and>
   (\<exists>s'. attempt default_config 3 (prompt_fail 1000) (fresh_run plain_fs) = Next s' \<and>
         agent_attempts s' = 1) \<and>
   (\<exists>s'. attempt default_config 4 (all_pass 2000) (fresh_run plain_fs) = Stop s' \<and>
         agent_attempts s' = 1 \<and> task_success s') \<and>
   (\<exists>r. run_automation default_config two_pipeline_one_agent_then_success plain_fs = Finished r \<and>
        returned r \<and> total_attempts r = 4 \<and> final_agent_attempts r = 2)"
proof -
  have f: "files_to_upload default_config = []" by (simp add: default_config_def)
  have h1: "phase1 default_config (p1 nav_fail) = Inl (PipelineError NAVIGATION_FAILED)"
    by (rule nav_fail_phase1)
  have h2: "phase1 default_config (p1 (prompt_fail 1000)) = Inr () \<and>
      mkdir_ok (disk (fresh_run plain_fs)) \<and>
      agent_body (p2 (prompt_fail 1000)) = Closed PROMPT_FAILED"
    using good_phase1_passes[OF f]
    by (simp add: prompt_fail_def nav_fail_def failing_phase2_body fresh_run_def plain_fs_def)
  have h3: "phase1 default_config (p1 (all_pass 2000)) = Inr () \<and>
      mkdir_ok (disk (fresh_run plain_fs)) \<and> agent_body (p2 (all_pass 2000)) = Passed \<and>
      after_success_ok (p2 (all_pass 2000)) \<and>
      (no_hold default_config \<or> hold_released (p2 (all_pass 2000)))"
  proof -
    have "after_success_ok (passing_phase2 2000)"
      by (simp add: passing_phase2_def failing_phase2_def)
    moreover have "no_hold default_config" by (simp add: default_config_def)
    ultimately show ?thesis
      using good_phase1_passes[OF f]
      by (simp add: all_pass_def nav_fail_def passing_phase2_body fresh_run_def plain_fs_def)
  qed
  have h4: "mkdir_ok plain_fs \<and> 4 \<le> max_total_attempts default_config \<and>
      2 \<le> max_agent_attempts default_config \<and>
      undisturbed default_config (two_pipeline_one_agent_then_success 1) \<and>
      undisturbed default_config (two_pipeline_one_agent_then_success 2) \<and>
      undisturbed default_config (two_pipeline_one_agent_then_success 3) \<and>
      undisturbed default_config (two_pipeline_one_agent_then_success 4) \<and>
      pipeline_fails default_config (two_pipeline_one_agent_then_success 1) \<and>
      pipeline_fails default_config (two_pipeline_one_agent_then_success 2) \<and>
      phase1 default_config (p1 (two_pipeline_one_agent_then_success 3)) = Inr () \<and>
      agent_body (p2 (two_pipeline_one_agent_then_success 3)) = Closed PROMPT_FAILED \<and>
      phase1 default_config (p1 (two_pipeline_one_agent_then_success 4)) = Inr () \<and>
      agent_body (p2 (two_pipeline_one_agent_then_success 4)) = Passed \<and>
      after_success_ok (p2 (two_pipeline_one_agent_then_success 4)) \<and>
      (no_hold default_config \<or> hold_released (p2 (two_pipeline_one_agent_then_success 4)))"
    using h2 h3 h1
    by (simp add: two_pipeline_one_agent_then_success_def plain_fs_def pipeline_fails_def
        undisturbed_def nav_fail_def prompt_fail_def all_pass_def default_config_def)
  from retry_accounting [where cfg = default_config and ob = nav_fail
      and st = NAVIGATION_FAILED and tot = 1 and s = "fresh_run plain_fs"
      and ob_c = "prompt_fail 1000" and s_c = "fresh_run plain_fs" and st_c = PROMPT_FAILED
      and tot_c = 3 and ob_p = "all_pass 2000" and s_p = "fresh_run plain_fs" and tot_p = 4
      and fs = plain_fs and env = two_pipeline_one_agent_then_success and st_f = PROMPT_FAILED]
    h1 h2 h3 h4
  show ?thesis by (simp add: fresh_run_def)
qed

text \<open>The record file of a pass, and the logger as \<open>__init__\<close> leaves it.\<close>

definition record_file :: "config \<Rightarrow> attempt_obs \<Rightarrow> path" where
  "record_file cfg ob =
     Completion_file (json_logs_dir cfg) (cfg_agent_name cfg) (stamp_of (logger_clock (p2 ob)))
       (clean_name (if cfg_task_name cfg = [] then ''unknown'' else cfg_task_name cfg))"

definition first_logger :: "config \<Rightarrow> attempt_obs \<Rightarrow> CompletionLogger" where
  "first_logger cfg ob =
     \<lparr> session_file = record_file cfg ob,
       session_data =
         \<lparr> session_start = logger_clock (p2 ob), sd_agent_name = cfg_agent_name cfg,
           sd_prompt_version = cfg_prompt_version cfg, sd_task_source = cfg_task_source cfg,
           tasks = [] \<rparr>,
       current_task = None, current_prompt = None \<rparr>"

lemma new_logger_ok:
  "mkdir_ok fs \<Longrightarrow>
   new_logger (json_logs_dir cfg) (Some (cfg_task_name cfg)) (cfg_agent_name cfg)
     (cfg_prompt_version cfg) (cfg_task_source cfg) (logger_clock (p2 ob)) fs
   = Inr (first_logger cfg ob, write_to_disk (first_logger cfg ob) fs)"
  by (simp add: new_logger_def first_logger_def record_file_def Let_def)

text \<open>The logger and the disk when the agent has processed its prompts.\<close>

definition opened :: "config \<Rightarrow> int \<Rightarrow> attempt_obs \<Rightarrow> filesystem \<Rightarrow> CompletionLogger \<times> filesystem" where
  "opened cfg tot ob fs =
     (case start_task (first_logger cfg ob) (write_to_disk (first_logger cfg ob) fs)
             (cfg_task_name cfg) tot (start_clock (p2 ob)) of
        (lg1, fs1) \<Rightarrow> agent_logging lg1 fs1 (prompt_calls (p2 ob)))"

text \<open>A logger with an open task, no closed one, writing to \<open>P\<close>.\<close>

definition open_at :: "CompletionLogger \<Rightarrow> path \<Rightarrow> bool" where
  "open_at lg P =
     (session_file lg = P \<and> tasks (session_data lg) = [] \<and>
      (\<exists>t. current_task lg = Some t \<and> \<not> deprecated t))"

definition on_disk :: "CompletionLogger \<Rightarrow> filesystem \<Rightarrow> bool" where
  "on_disk lg fs = (writable fs \<longrightarrow> files fs (session_file lg) = Some (session_data lg))"

lemma write_to_disk_on_disk: "on_disk lg fs \<Longrightarrow> write_to_disk lg fs = fs"
  by (cases "writable fs") (auto simp: on_disk_def write_to_disk_def write_file_def map_upd_triv)

lemma on_disk_write [simp]: "on_disk lg (write_to_disk lg fs)"
  by (simp add: on_disk_def write_to_disk_files)

lemma start_prompt_keeps:
  assumes "on_disk lg fs" "open_at lg P"
  shows "snd (start_prompt lg fs t now) = fs" "open_at (fst (start_prompt lg fs t now)) P"
    "session_data (fst (start_prompt lg fs t now)) = session_data lg"
  using assms
  by (auto simp: start_prompt_def Let_def open_at_def on_disk_def write_to_disk_def
      write_file_def map_upd_triv)

lemma end_prompt_keeps:
  assumes "on_disk lg fs" "open_at lg P"
  shows "snd (end_prompt lg fs ok n now) = fs" "open_at (fst (end_prompt lg fs ok n now)) P"
    "session_data (fst (end_prompt lg fs ok n now)) = session_data lg"
  using assms
  by (auto simp: end_prompt_def Let_def open_at_def on_disk_def write_to_disk_def
      write_file_def map_upd_triv split: option.splits)

lemma agent_logging_keeps:
  assumes "on_disk lg fs" "open_at lg P"
  shows "snd (agent_logging lg fs cs) = fs \<and> open_at (fst (agent_logging lg fs cs)) P \<and>
         session_data (fst (agent_logging lg fs cs)) = session_data lg"
  using assms
proof (induction lg fs cs rule: agent_logging.induct)
  case (1 lg fs)
  then show ?case by simp
next
  case (2 lg fs msg now cs)
  note k = start_prompt_keeps[OF 2(2) 2(3), of msg now]
  have d: "on_disk (fst (start_prompt lg fs msg now)) (snd (start_prompt lg fs msg now))"
    using k 2(2) 2(3) by (simp add: on_disk_def open_at_def)
  from 2(1)[OF prod.collapse d k(2)] k
  show ?case by (simp add: split_beta)
next
  case (3 lg fs ok n now cs)
  note k = end_prompt_keeps[OF 3(2) 3(3), of ok n now]
  have d: "on_disk (fst (end_prompt lg fs ok n now)) (snd (end_prompt lg fs ok n now))"
    using k 3(2) 3(3) by (simp add: on_disk_def open_at_def)
  from 3(1)[OF prod.collapse d k(2)] k
  show ?case by (simp add: split_beta)
qed

lemma opened_props:
  "open_at (fst (opened cfg tot ob fs)) (record_file cfg ob)"
  "snd (opened cfg tot ob fs) = write_to_disk (first_logger cfg ob) fs"
  "session_data (fst (opened cfg tot ob fs)) = session_data (first_logger cfg ob)"
proof -
  let ?lg0 = "first_logger cfg ob"
  let ?fs0 = "write_to_disk ?lg0 fs"
  let ?st = "start_task ?lg0 ?fs0 (cfg_task_name cfg) tot (start_clock (p2 ob))"
  have s1: "snd ?st = ?fs0"
    by (simp add: start_task_def Let_def write_to_disk_def write_file_def map_upd_triv)
  have s2: "open_at (fst ?st) (record_file cfg ob)"
    by (simp add: start_task_def Let_def open_at_def first_logger_def)
  have s3: "session_data (fst ?st) = session_data ?lg0"
    by (simp add: start_task_def Let_def)
  have s4: "on_disk (fst ?st) (snd ?st)"
    using s1 s3 s2 by (simp add: on_disk_def open_at_def write_to_disk_files first_logger_def)
  from agent_logging_keeps[OF s4 s2, of "prompt_calls (p2 ob)"] s1 s3
  show "open_at (fst (opened cfg tot ob fs)) (record_file cfg ob)"
    "snd (opened cfg tot ob fs) = write_to_disk (first_logger cfg ob) fs"
    "session_data (fst (opened cfg tot ob fs)) = session_data (first_logger cfg ob)"
    by (simp_all add: opened_def split_beta)
qed

lemma phase2_opened:
  assumes "mkdir_ok (disk s)"
  shows "phase2 cfg tot ob s =
     (let lg2 = fst (opened cfg tot ob (disk s));
          s2 = s\<lparr>disk := snd (opened cfg tot ob (disk s))\<rparr>;
          after_finally =
            (\<lambda>st. st\<lparr>shutdown_event :=
                       (if timed_out_early (p2 ob) \<or> timed_out_late (p2 ob)
                        then False else shutdown_event st \<or> signalled ob)\<rparr>)
      in case agent_body (p2 ob) of
           Closed status \<Rightarrow>
             Next (after_finally (fst (close_record s2 lg2 status (end_clock (p2 ob)))))
         | Raised \<Rightarrow> Next (after_finally (unexpected_error s2 (Some lg2) (end_clock (p2 ob))))
         | Passed \<Rightarrow>
             if \<not> after_success_ok (p2 ob)
             then Next (after_finally
                          (unexpected_error (fst (close_record s2 lg2 SUCCESS (end_clock (p2 ob))))
                             (Some (snd (close_record s2 lg2 SUCCESS (end_clock (p2 ob)))))
                             (end_clock (p2 ob))))
             else if \<not> no_hold cfg \<and> \<not> hold_released (p2 ob) then Holds_forever
             else Stop (after_finally
                          ((fst (close_record s2 lg2 SUCCESS (end_clock (p2 ob))))
                             \<lparr>task_success := True\<rparr>)))"
  using assms
  by (simp add: phase2_def new_logger_ok opened_def Let_def split_beta split: body_end.splits)

text \<open>The file at \<open>P\<close> holds one task, closed with the status, not deprecated.\<close>

definition holds_record :: "filesystem \<Rightarrow> path \<Rightarrow> TaskStatus \<Rightarrow> bool" where
  "holds_record fs P st =
     (case files fs P of
        None \<Rightarrow> False
      | Some d \<Rightarrow>
          (case tasks d of
             [t] \<Rightarrow> task_status t = Some st \<and> \<not> deprecated t
           | _ \<Rightarrow> False))"

definition recorded :: "run_state \<Rightarrow> path \<Rightarrow> filesystem \<Rightarrow> TaskStatus \<Rightarrow> run_state \<Rightarrow> bool" where
  "recorded s P fs st s' =
     (agent_json_paths s' = agent_json_paths s @ [P] \<and>
      writable (disk s') = writable fs \<and> mkdir_ok (disk s') = mkdir_ok fs \<and>
      (\<forall>p. p \<noteq> P \<longrightarrow> files (disk s') p = files fs p) \<and>
      (if writable fs then holds_record (disk s') P st else files (disk s') P = files fs P))"

lemma close_record_effect:
  assumes "open_at lg P" "disk s = write_to_disk lg0 fs" "session_file lg0 = P"
  shows "recorded s P fs st (fst (close_record s lg st now))"
    and "current_task (snd (close_record s lg st now)) = None"
    and "session_file (snd (close_record s lg st now)) = P"
  using assms
  by (auto simp: close_record_def end_task_def Let_def open_at_def recorded_def holds_record_def
      write_to_disk_def write_file_def split_beta)

lemma unexpected_open_effect:
  assumes "open_at lg P" "disk s = write_to_disk lg0 fs" "session_file lg0 = P"
  shows "recorded s P fs UNKNOWN (unexpected_error s (Some lg) now)"
  using assms
  by (auto simp: unexpected_error_def end_task_def Let_def open_at_def recorded_def
      holds_record_def write_to_disk_def write_file_def split_beta)

lemma unexpected_closed_effect:
  assumes "current_task lg = None"
  shows "unexpected_error s (Some lg) now = s\<lparr>agent_attempts := agent_attempts s + 1\<rparr>"
  using assms by (simp add: unexpected_error_def Let_def)

lemma recorded_shutdown [simp]:
  "recorded s P fs st (s'\<lparr>shutdown_event := b\<rparr>) = recorded s P fs st s'"
  by (simp add: recorded_def)

lemma recorded_success [simp]:
  "recorded s P fs st (s'\<lparr>task_success := b\<rparr>) = recorded s P fs st s'"
  by (simp add: recorded_def)

lemma recorded_attempts [simp]:
  "recorded s P fs st (s'\<lparr>agent_attempts := n\<rparr>) = recorded s P fs st s'"
  by (simp add: recorded_def)

lemma recorded_disk [simp]:
  "recorded (s\<lparr>disk := d\<rparr>) P fs st s' = recorded s P fs st s'"
  by (simp add: recorded_def)

text \<open>What phase 2 leaves behind, by the way its body ends.\<close>

lemma phase2_closed_record:
  assumes "mkdir_ok (disk s)" "agent_body (p2 ob) = Closed st"
  shows "\<exists>s'. phase2 cfg tot ob s = Next s' \<and> agent_attempts s' = agent_attempts s + 1 \<and>
           recorded s (record_file cfg ob) (disk s) st s'"
proof -
  let ?lg = "fst (opened cfg tot ob (disk s))"
  let ?s2 = "s\<lparr>disk := snd (opened cfg tot ob (disk s))\<rparr>"
  have d: "disk ?s2 = write_to_disk (first_logger cfg ob) (disk s)"
    by (simp add: opened_props)
  have f: "session_file (first_logger cfg ob) = record_file cfg ob"
    by (simp add: first_logger_def)
  from close_record_effect(1)[OF opened_props(1)[of cfg tot ob "disk s"] d f,
      where st = st and now = "end_clock (p2 ob)"] assms
  show ?thesis
    by (simp add: phase2_opened Let_def)
qed

lemma phase2_raised_record:
  assumes "mkdir_ok (disk s)" "agent_body (p2 ob) = Raised"
  shows "\<exists>s'. phase2 cfg tot ob s = Next s' \<and> agent_attempts s' = agent_attempts s + 1 \<and>
           recorded s (record_file cfg ob) (disk s) UNKNOWN s'"
proof -
  let ?s2 = "s\<lparr>disk := snd (opened cfg tot ob (disk s))\<rparr>"
  have d: "disk ?s2 = write_to_disk (first_logger cfg ob) (disk s)"
    by (simp add: opened_props)
  have f: "session_file (first_logger cfg ob) = record_file cfg ob"
    by (simp add: first_logger_def)
  from unexpected_open_effect[OF opened_props(1)[of cfg tot ob "disk s"] d f,
      where now = "end_clock (p2 ob)"] assms
  show ?thesis
    by (simp add: phase2_opened Let_def)
qed

lemma phase2_passed_record:
  assumes "mkdir_ok (disk s)" "agent_body (p2 ob) = Passed"
  shows "(\<not> after_success_ok (p2 ob) \<longrightarrow>
            (\<exists>s'. phase2 cfg tot ob s = Next s' \<and> agent_attempts s' = agent_attempts s + 2 \<and>
                  recorded s (record_file cfg ob) (disk s) SUCCESS s')) \<and>
         (after_success_ok (p2 ob) \<and> \<not> no_hold cfg \<and> \<not> hold_released (p2 ob) \<longrightarrow>
            phase2 cfg tot ob s = Holds_forever) \<and>
         (after_success_ok (p2 ob) \<and> (no_hold cfg \<or> hold_released (p2 ob)) \<longrightarrow>
            (\<exists>s'. phase2 cfg tot ob s = Stop s' \<and> agent_attempts s' = agent_attempts s + 1 \<and>
                  recorded s (record_file cfg ob) (disk s) SUCCESS s'))"
proof -
  let ?lg = "fst (opened cfg tot ob (disk s))"
  let ?s2 = "s\<lparr>disk := snd (opened cfg tot ob (disk s))\<rparr>"
  let ?c = "close_record ?s2 ?lg SUCCESS (end_clock (p2 ob))"
  have d: "disk ?s2 = write_to_disk (first_logger cfg ob) (disk s)"
    by (simp add: opened_props)
  have f: "session_file (first_logger cfg ob) = record_file cfg ob"
    by (simp add: first_logger_def)
  note e = close_record_effect[OF opened_props(1)[of cfg tot ob "disk s"] d f,
      where st = SUCCESS and now = "end_clock (p2 ob)"]
  from e(2) have u: "unexpected_error (fst ?c) (Some (snd ?c)) (end_clock (p2 ob))
      = (fst ?c)\<lparr>agent_attempts := agent_attempts (fst ?c) + 1\<rparr>"
    by (rule unexpected_closed_effect)
  from e(1) u assms show ?thesis
    by (auto simp: phase2_opened Let_def)
qed

lemma phase2_no_logger:
  assumes "\<not> mkdir_ok (disk s)"
  shows "\<exists>s'. phase2 cfg tot ob s = Next s' \<and> agent_attempts s' = agent_attempts s + 1 \<and>
           agent_json_paths s' = agent_json_paths s \<and> disk s' = disk s"
  using assms by (simp add: phase2_def new_logger_def unexpected_error_def Let_def)

lemma phase2_never_propagates: "phase2 cfg tot ob s \<noteq> Propagates"
proof (cases "mkdir_ok (disk s)")
  case False
  from phase2_no_logger[OF this, of cfg tot ob] show ?thesis by auto
next
  case True
  show ?thesis
  proof (cases "agent_body (p2 ob)")
    case (Closed st)
    from phase2_closed_record[OF True this, of cfg tot] show ?thesis by auto
  next
    case Raised
    from phase2_raised_record[OF True this, of cfg tot] show ?thesis by auto
  next
    case Passed
    from phase2_passed_record[OF True this, of cfg tot] show ?thesis
      by (cases "after_success_ok (p2 ob)"; cases "no_hold cfg \<or> hold_released (p2 ob)") auto
  qed
qed

text \<open>
  C6, as amended. Only an exception of phase 1 leaves \<open>run_automation\<close>; every
  exception raised in phase 2 ends the pass with \<open>continue\<close> and \<open>agent_attempts\<close>
  increased. The record is closed with \<open>UNKNOWN\<close> exactly when a task is open at that
  moment: an exception before the logger exists leaves no record, and an exception after
  the record was closed with \<open>SUCCESS\<close> leaves it closed with \<open>SUCCESS\<close>.
\<close>

theorem unexpected_exception_is_caught:
  "(attempt cfg tot ob s = Propagates \<longrightarrow> phase1 cfg (p1 ob) = Inl OtherException) \<and>
   (phase1 cfg (p1 ob_a) = Inr () \<and> \<not> mkdir_ok (disk s_a) \<longrightarrow>
      (\<exists>s'. attempt cfg tot_a ob_a s_a = Next s' \<and> agent_attempts s' = agent_attempts s_a + 1 \<and>
            agent_json_paths s' = agent_json_paths s_a \<and> disk s' = disk s_a)) \<and>
   (phase1 cfg (p1 ob_b) = Inr () \<and> mkdir_ok (disk s_b) \<and> agent_body (p2 ob_b) = Raised \<longrightarrow>
      (\<exists>s'. attempt cfg tot_b ob_b s_b = Next s' \<and> agent_attempts s' = agent_attempts s_b + 1 \<and>
            recorded s_b (record_file cfg ob_b) (disk s_b) UNKNOWN s')) \<and>
   (phase1 cfg (p1 ob_c) = Inr () \<and> mkdir_ok (disk s_c) \<and> agent_body (p2 ob_c) = Passed \<and>
    \<not> after_success_ok (p2 ob_c) \<longrightarrow>
      (\<exists>s'. attempt cfg tot_c ob_c s_c = Next s' \<and> agent_attempts s' > agent_attempts s_c \<and>
            recorded s_c (record_file cfg ob_c) (disk s_c) SUCCESS s'))"
proof -
  have p: "phase1 cfg (p1 ob) = Inl OtherException" if "attempt cfg tot ob s = Propagates"
    using that phase2_never_propagates[of cfg tot ob s]
    by (auto simp: attempt_def split: sum.splits exn.splits)
  have a: "\<exists>s'. attempt cfg tot_a ob_a s_a = Next s' \<and> agent_attempts s' = agent_attempts s_a + 1 \<and>
            agent_json_paths s' = agent_json_paths s_a \<and> disk s' = disk s_a"
    if "phase1 cfg (p1 ob_a) = Inr () \<and> \<not> mkdir_ok (disk s_a)"
    using that phase2_no_logger[of s_a cfg tot_a ob_a] by (simp add: attempt_def)
  have b: "\<exists>s'. attempt cfg tot_b ob_b s_b = Next s' \<and> agent_attempts s' = agent_attempts s_b + 1 \<and>
            recorded s_b (record_file cfg ob_b) (disk s_b) UNKNOWN s'"
    if "phase1 cfg (p1 ob_b) = Inr () \<and> mkdir_ok (disk s_b) \<and> agent_body (p2 ob_b) = Raised"
    using that phase2_raised_record[of s_b ob_b cfg tot_b] by (simp add: attempt_def)
  have c: "\<exists>s'. attempt cfg tot_c ob_c s_c = Next s' \<and> agent_attempts s' > agent_attempts s_c \<and>
            recorded s_c (record_file cfg ob_c) (disk s_c) SUCCESS s'"
    if "phase1 cfg (p1 ob_c) = Inr () \<and> mkdir_ok (disk s_c) \<and> agent_body (p2 ob_c) = Passed \<and>
      \<not> after_success_ok (p2 ob_c)"
    using that phase2_passed_record[of s_c ob_c cfg tot_c] by (auto simp: attempt_def)
  from p a b c show ?thesis by blast
qed

text \<open>Scripted passes that raise.\<close>

definition launch_fail :: attempt_obs where
  "launch_fail = nav_fail\<lparr>p1 := good_phase1\<lparr>launch_ok := False\<rparr>\<rparr>"

definition prompts_raise :: "instant \<Rightarrow> attempt_obs" where
  "prompts_raise t = nav_fail\<lparr>p1 := good_phase1, p2 := (failing_phase2 t)\<lparr>prompts_result := None\<rparr>\<rparr>"

definition history_raises :: "instant \<Rightarrow> attempt_obs" where
  "history_raises t =
     nav_fail\<lparr>p1 := good_phase1, p2 := (passing_phase2 t)\<lparr>after_success_ok := False\<rparr>\<rparr>"

definition no_mkdir_fs :: filesystem where
  "no_mkdir_fs = plain_fs\<lparr>mkdir_ok := False\<rparr>"

lemma history_raises_body:
  "agent_body (p2 (history_raises t)) = Passed" "\<not> after_success_ok (p2 (history_raises t))"
proof -
  have "agent_body ((passing_phase2 t)\<lparr>after_success_ok := False\<rparr>) = Passed"
    by (simp add: agent_body_def failing_phase2_def passing_phase2_def is_excel_example)
  then show "agent_body (p2 (history_raises t)) = Passed"
    by (simp add: history_raises_def nav_fail_def)
  show "\<not> after_success_ok (p2 (history_raises t))"
    by (simp add: history_raises_def nav_fail_def)
qed

theorem unexpected_exception_is_caught_witness:
  "attempt default_config 1 launch_fail (fresh_run plain_fs) = Propagates \<and>
   phase1 default_config (p1 launch_fail) = Inl OtherException \<and>
   (\<exists>s'. attempt default_config 1 (prompt_fail 1000) (fresh_run no_mkdir_fs) = Next s' \<and>
         agent_attempts s' = 1 \<and> agent_json_paths s' = [] \<and> disk s' = no_mkdir_fs) \<and>
   (\<exists>s'. attempt default_config 1 (prompts_raise 1000) (fresh_run plain_fs) = Next s' \<and>
         agent_attempts s' = 1 \<and>
         recorded (fresh_run plain_fs) (record_file default_config (prompts_raise 1000))
           plain_fs UNKNOWN s') \<and>
   (\<exists>s'. attempt default_config 1 (history_raises 1000) (fresh_run plain_fs) = Next s' \<and>
         agent_attempts s' > 0 \<and>
         recorded (fresh_run plain_fs) (record_file default_config (history_raises 1000))
           plain_fs SUCCESS s')"
proof -
  have f: "files_to_upload default_config = []" by (simp add: default_config_def)
  note g = good_phase1_passes[OF f]
  have h0: "attempt default_config 1 launch_fail (fresh_run plain_fs) = Propagates"
    by (simp add: attempt_def phase1_def launch_fail_def nav_fail_def good_phase1_def)
  have ha: "phase1 default_config (p1 (prompt_fail 1000)) = Inr () \<and>
      \<not> mkdir_ok (disk (fresh_run no_mkdir_fs))"
    using g by (simp add: prompt_fail_def nav_fail_def fresh_run_def no_mkdir_fs_def)
  have hb: "phase1 default_config (p1 (prompts_raise 1000)) = Inr () \<and>
      mkdir_ok (disk (fresh_run plain_fs)) \<and> agent_body (p2 (prompts_raise 1000)) = Raised"
    using g
    by (simp add: prompts_raise_def nav_fail_def fresh_run_def plain_fs_def agent_body_def)
  have hc: "phase1 default_config (p1 (history_raises 1000)) = Inr () \<and>
      mkdir_ok (disk (fresh_run plain_fs)) \<and> agent_body (p2 (history_raises 1000)) = Passed \<and>
      \<not> after_success_ok (p2 (history_raises 1000))"
    using g history_raises_body[of 1000]
    by (simp add: history_raises_def nav_fail_def fresh_run_def plain_fs_def)
  from unexpected_exception_is_caught [where cfg = default_config and tot = 1
      and ob = launch_fail and s = "fresh_run plain_fs"
      and ob_a = "prompt_fail 1000" and s_a = "fresh_run no_mkdir_fs" and tot_a = 1
      and ob_b = "prompts_raise 1000" and s_b = "fresh_run plain_fs" and tot_b = 1
      and ob_c = "history_raises 1000" and s_c = "fresh_run plain_fs" and tot_c = 1]
    h0 ha hb hc
  show ?thesis by (simp add: fresh_run_def)
qed

text \<open>The statuses with which the records listed after a pass were closed.\<close>

definition statuses_at :: "filesystem \<Rightarrow> path \<Rightarrow> TaskStatus option list" where
  "statuses_at fs p = (case files fs p of None \<Rightarrow> [] | Some d \<Rightarrow> map task_status (tasks d))"

definition closing_statuses :: "attempt_end \<Rightarrow> TaskStatus option list" where
  "closing_statuses e =
     (case e of
        Next s \<Rightarrow> concat (map (statuses_at (disk s)) (agent_json_paths s))
      | Stop s \<Rightarrow> concat (map (statuses_at (disk s)) (agent_json_paths s))
      | Propagates \<Rightarrow> []
      | Holds_forever \<Rightarrow> [])"

definition charged :: "attempt_end \<Rightarrow> int option" where
  "charged e =
     (case e of Next s \<Rightarrow> Some (agent_attempts s) | Stop s \<Rightarrow> Some (agent_attempts s)
      | Propagates \<Rightarrow> None | Holds_forever \<Rightarrow> None)"

text \<open>
  C6 as stated fails when saving the history raises after the record was closed: the
  record of the pass reads \<open>SUCCESS\<close>, not \<open>UNKNOWN\<close> (and the pass is charged twice).
\<close>

theorem exception_after_success_not_unknown:
  "phase1 default_config (p1 (history_raises 1000)) = Inr () \<and>
   agent_body (p2 (history_raises 1000)) = Passed \<and>
   \<not> after_success_ok (p2 (history_raises 1000)) \<and>
   closing_statuses (attempt default_config 1 (history_raises 1000) (fresh_run plain_fs))
     = [Some SUCCESS] \<and>
   charged (attempt default_config 1 (history_raises 1000) (fresh_run plain_fs)) = Some 2"
proof -
  have f: "files_to_upload default_config = []" by (simp add: default_config_def)
  have g: "phase1 default_config (p1 (history_raises 1000)) = Inr ()"
    using good_phase1_passes[OF f] by (simp add: history_raises_def nav_fail_def)
  have m: "mkdir_ok (disk (fresh_run plain_fs))" "writable (disk (fresh_run plain_fs))"
    "agent_json_paths (fresh_run plain_fs) = []"
    by (simp_all add: fresh_run_def plain_fs_def)
  from phase2_passed_record[OF m(1) history_raises_body(1), of 1000 default_config 1]
    history_raises_body(2)[of 1000]
  obtain s' where s: "phase2 default_config 1 (history_raises 1000) (fresh_run plain_fs) = Next s'"
    "agent_attempts s' = agent_attempts (fresh_run plain_fs) + 2"
    "recorded (fresh_run plain_fs) (record_file default_config (history_raises 1000))
       (disk (fresh_run plain_fs)) SUCCESS s'"
    by blast
  from s(3) m have "statuses_at (disk s') (record_file default_config (history_raises 1000))
      = [Some SUCCESS]"
    by (auto simp: recorded_def holds_record_def statuses_at_def split: option.splits list.splits)
  with s m g history_raises_body[of 1000] show ?thesis
    by (simp add: attempt_def closing_statuses_def charged_def recorded_def fresh_run_def)
qed

text \<open>The states of a record file after the loop.\<close>

definition none_deprecated :: "filesystem \<Rightarrow> path \<Rightarrow> bool" where
  "none_deprecated fs p =
     (case files fs p of
        None \<Rightarrow> False
      | Some d \<Rightarrow> tasks d \<noteq> [] \<and> list_all (\<lambda>t. \<not> deprecated t) (tasks d))"

definition all_deprecated :: "filesystem \<Rightarrow> path \<Rightarrow> bool" where
  "all_deprecated fs p =
     (case files fs p of
        None \<Rightarrow> False
      | Some d \<Rightarrow>
          tasks d \<noteq> [] \<and>
          list_all (\<lambda>t. deprecated t \<and> deprecated_reason t = Some ''Superseded by later attempt'')
            (tasks d))"

lemma holds_record_live: "holds_record fs p st \<Longrightarrow> none_deprecated fs p"
  by (auto simp: holds_record_def none_deprecated_def split: option.splits list.splits)

lemma mark_effect:
  assumes "writable fs" "none_deprecated fs p"
  shows "all_deprecated (mark_json_deprecated fs p ''Superseded by later attempt'') p"
    and "q \<noteq> p \<Longrightarrow> files (mark_json_deprecated fs p ''Superseded by later attempt'') q = files fs q"
  using assms
  by (auto simp: mark_json_deprecated_def write_file_def none_deprecated_def all_deprecated_def
      list_all_iff split: option.splits)

lemma fold_mark:
  assumes "distinct ps" "writable fs" "\<forall>p\<in>set ps. none_deprecated fs p"
  shows "(\<forall>p\<in>set ps. all_deprecated
            (fold (\<lambda>p f. mark_json_deprecated f p ''Superseded by later attempt'') ps fs) p) \<and>
         (\<forall>q. q \<notin> set ps \<longrightarrow>
            files (fold (\<lambda>p f. mark_json_deprecated f p ''Superseded by later attempt'') ps fs) q
              = files fs q)"
  using assms
proof (induction ps arbitrary: fs)
  case Nil
  then show ?case by simp
next
  case (Cons p ps)
  let ?m = "mark_json_deprecated fs p ''Superseded by later attempt''"
  let ?F = "fold (\<lambda>p f. mark_json_deprecated f p ''Superseded by later attempt'') ps ?m"
  from Cons.prems have np: "p \<notin> set ps" and d: "distinct ps" by simp_all
  from Cons.prems have lp: "none_deprecated fs p" by simp
  note me = mark_effect[OF Cons.prems(2) lp]
  have w: "writable ?m" using Cons.prems(2) by simp
  have l: "\<forall>q\<in>set ps. none_deprecated ?m q"
  proof
    fix q assume q: "q \<in> set ps"
    with np have "q \<noteq> p" by auto
    from me(2)[OF this] Cons.prems(3) q show "none_deprecated ?m q"
      by (simp add: none_deprecated_def)
  qed
  from Cons.IH[OF d w l] have ih: "\<forall>q\<in>set ps. all_deprecated ?F q"
    "\<forall>q. q \<notin> set ps \<longrightarrow> files ?F q = files ?m q" by blast+
  from ih(2) np have "files ?F p = files ?m p" by blast
  with me(1) have "all_deprecated ?F p" by (simp add: all_deprecated_def)
  moreover have "\<forall>q. q \<notin> set (p # ps) \<longrightarrow> files ?F q = files fs q"
    using ih(2) me(2) by auto
  ultimately show ?case using ih(1) by simp
qed

lemma deprecate_earlier_effect:
  assumes "distinct ps" "ps \<noteq> []" "writable fs" "\<forall>p\<in>set ps. none_deprecated fs p"
  shows "(\<forall>p\<in>set (butlast ps). all_deprecated (deprecate_earlier ps fs) p) \<and>
         none_deprecated (deprecate_earlier ps fs) (last ps)"
proof (cases "length ps > 1")
  case False
  with assms(2) have "butlast ps = []" by (cases ps) auto
  with False assms show ?thesis by (simp add: deprecate_earlier_def)
next
  case True
  from assms(1,2) have nl: "last ps \<notin> set (butlast ps)"
    by (metis append_butlast_last_id distinct_append distinct.simps(2) disjoint_iff list.set_intros(1))
  have db: "distinct (butlast ps)" using assms(1) by (rule distinct_butlast)
  have lb: "\<forall>p\<in>set (butlast ps). none_deprecated fs p"
    using assms(4) by (auto dest: in_set_butlastD)
  from fold_mark[OF db assms(3) lb] nl
  have "\<forall>p\<in>set (butlast ps). all_deprecated (deprecate_earlier ps fs) p"
    "files (deprecate_earlier ps fs) (last ps) = files fs (last ps)"
    using True by (simp_all add: deprecate_earlier_def)
  moreover from assms(2,4) have "none_deprecated fs (last ps)" by simp
  ultimately show ?thesis by (simp add: none_deprecated_def)
qed

text \<open>What a pass does to the list of record paths and to the record files.\<close>

lemma attempt_effect:
  assumes "attempt cfg tot ob s = Next s' \<or> attempt cfg tot ob s = Stop s'"
  shows "(agent_json_paths s' = agent_json_paths s \<and> disk s' = disk s) \<or>
         (\<exists>st. recorded s (record_file cfg ob) (disk s) st s')"
proof (cases "phase1 cfg (p1 ob)")
  case (Inl e)
  with assms show ?thesis by (cases e) (auto simp: attempt_def)
next
  case (Inr u)
  with assms have p: "phase2 cfg tot ob s = Next s' \<or> phase2 cfg tot ob s = Stop s'"
    by (simp add: attempt_def)
  show ?thesis
  proof (cases "mkdir_ok (disk s)")
    case False
    from phase2_no_logger[OF this, of cfg tot ob] p show ?thesis by auto
  next
    case True
    show ?thesis
    proof (cases "agent_body (p2 ob)")
      case (Closed st)
      from phase2_closed_record[OF True this, of cfg tot] p show ?thesis by auto
    next
      case Raised
      from phase2_raised_record[OF True this, of cfg tot] p show ?thesis by auto
    next
      case Passed
      from phase2_passed_record[OF True this, of cfg tot] p show ?thesis
        by (cases "after_success_ok (p2 ob)"; cases "no_hold cfg \<or> hold_released (p2 ob)") auto
    qed
  qed
qed

definition live_records :: "run_state \<Rightarrow> bool" where
  "live_records s = (\<forall>p\<in>set (agent_json_paths s). none_deprecated (disk s) p)"

lemma attempt_keeps_live:
  assumes "attempt cfg tot ob s = Next s' \<or> attempt cfg tot ob s = Stop s'"
    "writable (disk s)" "live_records s" "distinct (agent_json_paths s')"
  shows "writable (disk s') \<and> live_records s' \<and>
         (\<exists>more. agent_json_paths s' = agent_json_paths s @ more)"
  using attempt_effect[OF assms(1)]
proof
  assume "agent_json_paths s' = agent_json_paths s \<and> disk s' = disk s"
  with assms show ?thesis by (simp add: live_records_def)
next
  assume "\<exists>st. recorded s (record_file cfg ob) (disk s) st s'"
  then obtain st where r: "recorded s (record_file cfg ob) (disk s) st s'" ..
  let ?P = "record_file cfg ob"
  from r have ps: "agent_json_paths s' = agent_json_paths s @ [?P]"
    and w: "writable (disk s')" and h: "holds_record (disk s') ?P st"
    and o: "\<forall>p. p \<noteq> ?P \<longrightarrow> files (disk s') p = files (disk s) p"
    using assms(2) by (simp_all add: recorded_def)
  from ps assms(4) have n: "?P \<notin> set (agent_json_paths s)" by simp
  have "live_records s'"
    unfolding live_records_def
  proof
    fix p assume "p \<in> set (agent_json_paths s')"
    with ps have "p = ?P \<or> p \<in> set (agent_json_paths s)" by auto
    then show "none_deprecated (disk s') p"
    proof
      assume "p = ?P"
      with h show ?thesis by (simp add: holds_record_live)
    next
      assume m: "p \<in> set (agent_json_paths s)"
      with n have "p \<noteq> ?P" by auto
      with o have "files (disk s') p = files (disk s) p" by simp
      with m assms(3) show ?thesis by (simp add: live_records_def none_deprecated_def)
    qed
  qed
  with w ps show ?thesis by simp
qed

lemma attempt_paths_grow:
  assumes "attempt cfg tot ob s = Next s' \<or> attempt cfg tot ob s = Stop s'"
  shows "\<exists>more. agent_json_paths s' = agent_json_paths s @ more"
  using attempt_effect[OF assms] by (auto simp: recorded_def)

lemma run_loop_paths_grow:
  "run_loop cfg env tot s = Loop_done tot' s' \<Longrightarrow>
   \<exists>more. agent_json_paths s' = agent_json_paths s @ more"
proof (induction cfg env tot s rule: run_loop.induct)
  case (1 cfg env tot s)
  show ?case
  proof (cases "max_total_attempts cfg \<le> tot \<or> max_agent_attempts cfg \<le> agent_attempts s \<or>
      (max_sec_per_task cfg > 0 \<and> elapsed_at_check (env (tot + 1)) \<ge> max_sec_per_task cfg) \<or>
      shutdown_event s \<or> signal_before_check (env (tot + 1))")
    case True
    then have "run_loop cfg env tot s = Loop_done tot s"
      by (subst run_loop.simps) auto
    with 1(2) show ?thesis by simp
  next
    case False
    then have r: "run_loop cfg env tot s =
        (case attempt cfg (tot + 1) (env (tot + 1)) s of
           Next s' \<Rightarrow> run_loop cfg env (tot + 1) s'
         | Stop s' \<Rightarrow> Loop_done (tot + 1) s'
         | Propagates \<Rightarrow> Loop_raised
         | Holds_forever \<Rightarrow> Loop_hangs)"
      by (subst run_loop.simps) auto
    show ?thesis
    proof (cases "attempt cfg (tot + 1) (env (tot + 1)) s")
      case (Next s1)
      with r 1(2) have l: "run_loop cfg env (tot + 1) s1 = Loop_done tot' s'" by simp
      from False Next have "\<exists>more. agent_json_paths s' = agent_json_paths s1 @ more"
        by (intro 1(1)[OF _ _ _ _ Next l]) auto
      moreover from attempt_paths_grow[of cfg "tot + 1" "env (tot + 1)" s s1] Next
      have "\<exists>more. agent_json_paths s1 = agent_json_paths s @ more" by simp
      ultimately show ?thesis by auto
    next
      case (Stop s1)
      with r 1(2) have "s1 = s'" by simp
      with attempt_paths_grow[of cfg "tot + 1" "env (tot + 1)" s s1] Stop show ?thesis by simp
    next
      case Propagates
      with r 1(2) show ?thesis by simp
    next
      case Holds_forever
      with r 1(2) show ?thesis by simp
    qed
  qed
qed

lemma run_loop_keeps_live:
  "run_loop cfg env tot s = Loop_done tot' s' \<Longrightarrow> writable (disk s) \<Longrightarrow> live_records s \<Longrightarrow>
   distinct (agent_json_paths s') \<Longrightarrow> writable (disk s') \<and> live_records s'"
proof (induction cfg env tot s rule: run_loop.induct)
  case (1 cfg env tot s)
  show ?case
  proof (cases "max_total_attempts cfg \<le> tot \<or> max_agent_attempts cfg \<le> agent_attempts s \<or>
      (max_sec_per_task cfg > 0 \<and> elapsed_at_check (env (tot + 1)) \<ge> max_sec_per_task cfg) \<or>
      shutdown_event s \<or> signal_before_check (env (tot + 1))")
    case True
    then have "run_loop cfg env tot s = Loop_done tot s"
      by (subst run_loop.simps) auto
    with 1(2,3,4) show ?thesis by simp
  next
    case False
    then have r: "run_loop cfg env tot s =
        (case attempt cfg (tot + 1) (env (tot + 1)) s of
           Next s' \<Rightarrow> run_loop cfg env (tot + 1) s'
         | Stop s' \<Rightarrow> Loop_done (tot + 1) s'
         | Propagates \<Rightarrow> Loop_raised
         | Holds_forever \<Rightarrow> Loop_hangs)"
      by (subst run_loop.simps) auto
    show ?thesis
    proof (cases "attempt cfg (tot + 1) (env (tot + 1)) s")
      case (Next s1)
      with r 1(2) have l: "run_loop cfg env (tot + 1) s1 = Loop_done tot' s'" by simp
      from run_loop_paths_grow[OF l] 1(5) have d1: "distinct (agent_json_paths s1)" by auto
      from attempt_keeps_live[of cfg "tot + 1" "env (tot + 1)" s s1] Next 1(3,4) d1
      have k: "writable (disk s1)" "live_records s1" by simp_all
      from False show ?thesis
        by (intro 1(1)[OF _ _ _ _ Next l k 1(5)]) auto
    next
      case (Stop s1)
      with r 1(2) have "s1 = s'" by simp
      with attempt_keeps_live[of cfg "tot + 1" "env (tot + 1)" s s1] Stop 1(3,4,5)
      show ?thesis by simp
    next
      case Propagates
      with r 1(2) show ?thesis by simp
    next
      case Holds_forever
      with r 1(2) show ?thesis by simp
    qed
  qed
qed

text \<open>
  When the loggers of different passes are created in different seconds, the listed
  record files are pairwise distinct.
\<close>

definition listed_from :: "config \<Rightarrow> (int \<Rightarrow> attempt_obs) \<Rightarrow> int \<Rightarrow> run_state \<Rightarrow> bool" where
  "listed_from cfg env tot s =
     (distinct (agent_json_paths s) \<and>
      (\<forall>p\<in>set (agent_json_paths s). \<exists>n. 1 \<le> n \<and> n \<le> tot \<and> p = record_file cfg (env n)))"

lemma attempt_listed:
  assumes "attempt cfg (tot + 1) (env (tot + 1)) s = Next s' \<or>
           attempt cfg (tot + 1) (env (tot + 1)) s = Stop s'"
    "listed_from cfg env tot s" "0 \<le> tot"
    "\<forall>m n. m \<noteq> n \<longrightarrow> record_file cfg (env m) \<noteq> record_file cfg (env n)"
  shows "listed_from cfg env (tot + 1) s'"
  using attempt_effect[OF assms(1)]
proof
  assume "agent_json_paths s' = agent_json_paths s \<and> disk s' = disk s"
  moreover have "\<exists>n. 1 \<le> n \<and> n \<le> tot + 1 \<and> p = record_file cfg (env n)"
    if "p \<in> set (agent_json_paths s)" for p
  proof -
    from that assms(2) obtain n where "1 \<le> n" "n \<le> tot" "p = record_file cfg (env n)"
      by (auto simp: listed_from_def)
    then show ?thesis by (intro exI[of _ n]) simp
  qed
  ultimately show ?thesis using assms(2) by (simp add: listed_from_def)
next
  assume "\<exists>st. recorded s (record_file cfg (env (tot + 1))) (disk s) st s'"
  then have ps: "agent_json_paths s' = agent_json_paths s @ [record_file cfg (env (tot + 1))]"
    by (auto simp: recorded_def)
  have "record_file cfg (env (tot + 1)) \<notin> set (agent_json_paths s)"
  proof
    assume "record_file cfg (env (tot + 1)) \<in> set (agent_json_paths s)"
    with assms(2) obtain n where "n \<le> tot" "record_file cfg (env (tot + 1)) = record_file cfg (env n)"
      by (auto simp: listed_from_def)
    with assms(4) show False by (metis add_le_same_cancel1 not_one_le_zero)
  qed
  with ps assms(2) have d: "distinct (agent_json_paths s')" by (simp add: listed_from_def)
  have "\<exists>n. 1 \<le> n \<and> n \<le> tot + 1 \<and> p = record_file cfg (env n)"
    if "p \<in> set (agent_json_paths s')" for p
  proof (cases "p = record_file cfg (env (tot + 1))")
    case True
    with assms(3) show ?thesis by (intro exI[of _ "tot + 1"]) simp
  next
    case False
    with that ps have "p \<in> set (agent_json_paths s)" by simp
    with assms(2) obtain n where "1 \<le> n" "n \<le> tot" "p = record_file cfg (env n)"
      by (auto simp: listed_from_def)
    then show ?thesis by (intro exI[of _ n]) simp
  qed
  with d show ?thesis by (simp add: listed_from_def)
qed

lemma run_loop_listed:
  "run_loop cfg env tot s = Loop_done tot' s' \<Longrightarrow> listed_from cfg env tot s \<Longrightarrow> 0 \<le> tot \<Longrightarrow>
   \<forall>m n. m \<noteq> n \<longrightarrow> record_file cfg (env m) \<noteq> record_file cfg (env n) \<Longrightarrow>
   distinct (agent_json_paths s')"
proof (induction cfg env tot s rule: run_loop.induct)
  case (1 cfg env tot s)
  show ?case
  proof (cases "max_total_attempts cfg \<le> tot \<or> max_agent_attempts cfg \<le> agent_attempts s \<or>
      (max_sec_per_task cfg > 0 \<and> elapsed_at_check (env (tot + 1)) \<ge> max_sec_per_task cfg) \<or>
      shutdown_event s \<or> signal_before_check (env (tot + 1))")
    case True
    then have "run_loop cfg env tot s = Loop_done tot s"
      by (subst run_loop.simps) auto
    with 1(2,3) show ?thesis by (simp add: listed_from_def)
  next
    case False
    then have r: "run_loop cfg env tot s =
        (case attempt cfg (tot + 1) (env (tot + 1)) s of
           Next s' \<Rightarrow> run_loop cfg env (tot + 1) s'
         | Stop s' \<Rightarrow> Loop_done (tot + 1) s'
         | Propagates \<Rightarrow> Loop_raised
         | Holds_forever \<Rightarrow> Loop_hangs)"
      by (subst run_loop.simps) auto
    show ?thesis
    proof (cases "attempt cfg (tot + 1) (env (tot + 1)) s")
      case (Next s1)
      with r 1(2) have l: "run_loop cfg env (tot + 1) s1 = Loop_done tot' s'" by simp
      from attempt_listed[of cfg tot env s s1] Next 1(3,4,5)
      have k: "listed_from cfg env (tot + 1) s1" by simp
      from 1(4) have z: "0 \<le> tot + 1" by simp
      from False show ?thesis
        by (intro 1(1)[OF _ _ _ _ Next l k z 1(5)]) auto
    next
      case (Stop s1)
      with r 1(2) have "s1 = s'" by simp
      with attempt_listed[of cfg tot env s s1] Stop 1(3,4,5)
      show ?thesis by (simp add: listed_from_def)
    next
      case Propagates
      with r 1(2) show ?thesis by simp
    next
      case Holds_forever
      with r 1(2) show ?thesis by simp
    qed
  qed
qed

lemma distinct_seconds_distinct_records:
  assumes "run_automation cfg env fs = Finished r"
    "\<forall>m n. m \<noteq> n \<longrightarrow>
       stamp_of (logger_clock (p2 (env m))) \<noteq> stamp_of (logger_clock (p2 (env n)))"
  shows "distinct (json_paths r)"
proof -
  from assms(1) obtain tot s where l: "run_loop cfg env 0 (fresh_run fs) = Loop_done tot s"
    and r: "json_paths r = agent_json_paths s"
    by (auto simp: run_automation_fresh split: if_splits loop_end.splits)
  have i: "listed_from cfg env 0 (fresh_run fs)" by (simp add: listed_from_def fresh_run_def)
  from assms(2) have "\<forall>m n. m \<noteq> n \<longrightarrow> record_file cfg (env m) \<noteq> record_file cfg (env n)"
    by (simp add: record_file_def)
  from run_loop_listed[OF l i _ this] r show ?thesis by simp
qed

text \<open>
  The marking when the listed record files are pairwise distinct: if \<open>run_automation\<close>
  returns, the disk accepts writes and the loop has listed record files, every listed
  record but the last has all its tasks marked deprecated, with the reason "Superseded by
  later attempt", and the last listed record has none marked.
\<close>

theorem earlier_records_deprecated:
  "run_automation cfg env fs = Finished r \<and> writable fs \<and> distinct (json_paths r) \<and>
   json_paths r \<noteq> [] \<longrightarrow>
     (\<forall>p\<in>set (butlast (json_paths r)). all_deprecated (final_disk r) p) \<and>
     none_deprecated (final_disk r) (last (json_paths r))"
proof
  assume h: "run_automation cfg env fs = Finished r \<and> writable fs \<and> distinct (json_paths r) \<and>
   json_paths r \<noteq> []"
  then obtain tot s where l: "run_loop cfg env 0 (fresh_run fs) = Loop_done tot s"
    and r: "r = \<lparr> returned = task_success s, total_attempts = tot,
                  final_agent_attempts = agent_attempts s,
                  json_paths = agent_json_paths s,
                  final_disk = deprecate_earlier (agent_json_paths s) (disk s) \<rparr>"
    by (auto simp: run_automation_fresh split: if_splits loop_end.splits)
  from r h have d: "distinct (agent_json_paths s)" and n: "agent_json_paths s \<noteq> []" by simp_all
  have "live_records (fresh_run fs)" by (simp add: live_records_def fresh_run_def)
  with run_loop_keeps_live[OF l] h d have "writable (disk s)" "live_records s"
    by (simp_all add: fresh_run_def)
  with deprecate_earlier_effect[OF d n] r show
    "(\<forall>p\<in>set (butlast (json_paths r)). all_deprecated (final_disk r) p) \<and>
     none_deprecated (final_disk r) (last (json_paths r))"
    by (simp add: live_records_def)
qed

definition three_records :: "int \<Rightarrow> attempt_obs" where
  "three_records n =
     (if n = 1 then prompt_fail 1000 else if n = 2 then prompt_fail 2000 else all_pass 3000)"

lemma three_records_run:
  "\<exists>r. run_automation default_config three_records plain_fs = Finished r \<and>
       json_paths r = [record_file default_config (prompt_fail 1000),
                       record_file default_config (prompt_fail 2000),
                       record_file default_config (all_pass 3000)]"
proof -
  let ?cfg = default_config
  let ?s0 = "fresh_run plain_fs"
  have f: "files_to_upload ?cfg = []" by (simp add: default_config_def)
  note g = good_phase1_passes[OF f]
  have c: "max_total_attempts ?cfg = 10" "max_agent_attempts ?cfg = 3" "max_sec_per_task ?cfg = 0"
    "no_hold ?cfg"
    by (simp_all add: default_config_def)
  have e: "three_records 1 = prompt_fail 1000" "three_records 2 = prompt_fail 2000"
    "three_records 3 = all_pass 3000"
    by (simp_all add: three_records_def)
  have q: "\<And>t. p1 (prompt_fail t) = good_phase1" "\<And>t. p2 (prompt_fail t) = failing_phase2 t"
    "\<And>t. \<not> signal_before_check (prompt_fail t)" "\<And>t. \<not> signalled (prompt_fail t)"
    "\<And>t. p1 (all_pass t) = good_phase1" "\<And>t. p2 (all_pass t) = passing_phase2 t"
    "\<And>t. \<not> signal_before_check (all_pass t)" "\<And>t. \<not> signalled (all_pass t)"
    by (simp_all add: prompt_fail_def all_pass_def nav_fail_def)
  have nt: "\<And>t. \<not> timed_out_early (failing_phase2 t)" "\<And>t. \<not> timed_out_late (failing_phase2 t)"
    "\<And>t. after_success_ok (passing_phase2 t)"
    by (simp_all add: failing_phase2_def passing_phase2_def)
  have s0: "agent_attempts ?s0 = 0" "\<not> shutdown_event ?s0" "disk ?s0 = plain_fs"
    "mkdir_ok (disk ?s0)" "agent_json_paths ?s0 = []"
    by (simp_all add: fresh_run_def plain_fs_def)
  \<comment> \<open>pass 1\<close>
  from phase2_closed[OF s0(4), of "prompt_fail 1000" PROMPT_FAILED ?cfg 1]
    phase2_closed_record[OF s0(4), of "prompt_fail 1000" PROMPT_FAILED ?cfg 1]
  obtain sa where a: "phase2 ?cfg 1 (prompt_fail 1000) ?s0 = Next sa" "agent_attempts sa = 1"
    "\<not> shutdown_event sa" "mkdir_ok (disk sa)"
    "agent_json_paths sa = [record_file ?cfg (prompt_fail 1000)]"
    using q nt s0 by (auto simp: failing_phase2_body finally_event_def recorded_def)
  have r1: "run_loop ?cfg three_records 0 ?s0 = run_loop ?cfg three_records 1 sa"
    using run_loop_step[of 0 ?cfg ?s0 three_records] a g c e q s0 by (simp add: attempt_def)
  \<comment> \<open>pass 2\<close>
  from phase2_closed[OF a(4), of "prompt_fail 2000" PROMPT_FAILED ?cfg 2]
    phase2_closed_record[OF a(4), of "prompt_fail 2000" PROMPT_FAILED ?cfg 2]
  obtain sb where b: "phase2 ?cfg 2 (prompt_fail 2000) sa = Next sb" "agent_attempts sb = 2"
    "\<not> shutdown_event sb" "mkdir_ok (disk sb)"
    "agent_json_paths sb = [record_file ?cfg (prompt_fail 1000), record_file ?cfg (prompt_fail 2000)]"
    using q nt a by (auto simp: failing_phase2_body finally_event_def recorded_def)
  have r2: "run_loop ?cfg three_records 1 sa = run_loop ?cfg three_records 2 sb"
    using run_loop_step[of 1 ?cfg sa three_records] a b g c e q by (simp add: attempt_def)
  \<comment> \<open>pass 3\<close>
  from phase2_passed_record[OF b(4), of "all_pass 3000" ?cfg 3]
  obtain sc where d: "phase2 ?cfg 3 (all_pass 3000) sb = Stop sc"
    "agent_json_paths sc = [record_file ?cfg (prompt_fail 1000), record_file ?cfg (prompt_fail 2000),
       record_file ?cfg (all_pass 3000)]"
    using q nt b c by (auto simp: passing_phase2_body recorded_def)
  have r3: "run_loop ?cfg three_records 2 sb = Loop_done 3 sc"
    using run_loop_step[of 2 ?cfg sb three_records] b d g c e q by (simp add: attempt_def)
  from r1 r2 r3 have "run_loop ?cfg three_records 0 ?s0 = Loop_done 3 sc" by simp
  with d(2) show ?thesis by (simp add: run_automation_fresh plain_fs_def)
qed

theorem earlier_records_deprecated_witness:
  "\<exists>r. run_automation default_config three_records plain_fs = Finished r \<and>
       json_paths r = [record_file default_config (prompt_fail 1000),
                       record_file default_config (prompt_fail 2000),
                       record_file default_config (all_pass 3000)] \<and>
       all_deprecated (final_disk r) (record_file default_config (prompt_fail 1000)) \<and>
       all_deprecated (final_disk r) (record_file default_config (prompt_fail 2000)) \<and>
       none_deprecated (final_disk r) (record_file default_config (all_pass 3000))"
proof -
  from three_records_run obtain r where
    r: "run_automation default_config three_records plain_fs = Finished r"
      "json_paths r = [record_file default_config (prompt_fail 1000),
                       record_file default_config (prompt_fail 2000),
                       record_file default_config (all_pass 3000)]"
    by blast
  have w: "writable plain_fs" by (simp add: plain_fs_def)
  have d: "distinct (json_paths r)" "json_paths r \<noteq> []"
    using r(2)
    by (simp_all add: record_file_def stamp_of_def prompt_fail_def all_pass_def nav_fail_def
        failing_phase2_def passing_phase2_def)
  from earlier_records_deprecated [of default_config three_records plain_fs r] r w d
  show ?thesis by auto
qed

text \<open>
  Passes that take a fifth of a second, and a run of three of them within one second of
  the wall clock: two whose prompts fail, then one that succeeds. All three loggers name
  their file \<open>shared_file\<close>, since the name carries the time to the second only.
\<close>

definition brief_fail :: "instant \<Rightarrow> attempt_obs" where
  "brief_fail t = nav_fail\<lparr>p1 := good_phase1, p2 := (failing_phase2 t)\<lparr>end_clock := t + 20\<rparr>\<rparr>"

definition brief_pass :: "instant \<Rightarrow> attempt_obs" where
  "brief_pass t = nav_fail\<lparr>p1 := good_phase1, p2 := (passing_phase2 t)\<lparr>end_clock := t + 20\<rparr>\<rparr>"

definition same_second :: "int \<Rightarrow> attempt_obs" where
  "same_second n =
     (if n = 1 then brief_fail 1000 else if n = 2 then brief_fail 1030 else brief_pass 1060)"

definition shared_file :: path where
  "shared_file = Completion_file ''json_logs'' ''claude_web'' 10 ''task''"

lemma clean_name_task: "clean_name ''task'' = ''task''"
  by code_simp

lemma same_second_files:
  "record_file default_config (brief_fail 1000) = shared_file"
  "record_file default_config (brief_fail 1030) = shared_file"
  "record_file default_config (brief_pass 1060) = shared_file"
  by (simp_all add: record_file_def default_config_def brief_fail_def brief_pass_def nav_fail_def
      failing_phase2_def passing_phase2_def stamp_of_def shared_file_def clean_name_task)

lemma brief_bodies:
  "agent_body (p2 (brief_fail t)) = Closed PROMPT_FAILED"
  "agent_body (p2 (brief_pass t)) = Passed"
  by (simp_all add: agent_body_def brief_fail_def brief_pass_def nav_fail_def failing_phase2_def
      passing_phase2_def is_excel_example)

lemma marked_though_last:
  assumes "writable fs" "holds_record fs P st"
  shows "statuses_at (deprecate_earlier [P, P, P] fs) P = [Some st]"
    and "all_deprecated (deprecate_earlier [P, P, P] fs) P"
    and "\<not> none_deprecated (deprecate_earlier [P, P, P] fs) P"
    and "q \<noteq> P \<Longrightarrow> files (deprecate_earlier [P, P, P] fs) q = files fs q"
  using assms
  by (auto simp: deprecate_earlier_def mark_json_deprecated_def write_file_def holds_record_def
      statuses_at_def all_deprecated_def none_deprecated_def split: option.splits list.splits)

text \<open>
  C7. The claim fails on the code when passes share a record file. Every logger opens
  its file for
  writing anew, so the file holds the record of the latest pass only; the list
  \<open>agent_json_paths\<close> names it once per pass, and the loop over
  \<open>agent_json_paths[:-1]\<close> marks it. For three passes in one second, the last of them
  successful: the run returns true after three attempts, the three listed paths are the
  same file, that file is the only one on disk and holds one task, closed with
  \<open>SUCCESS\<close>, and this last record is marked deprecated with the reason "Superseded by
  later attempt".
\<close>

theorem same_second_records_collide:
  "\<exists>r. run_automation default_config same_second plain_fs = Finished r \<and> returned r \<and>
       total_attempts r = 3 \<and> final_agent_attempts r = 3 \<and>
       json_paths r = [shared_file, shared_file, shared_file] \<and>
       Map.dom (files (final_disk r)) = {shared_file} \<and>
       statuses_at (final_disk r) shared_file = [Some SUCCESS] \<and>
       all_deprecated (final_disk r) (last (json_paths r)) \<and>
       \<not> none_deprecated (final_disk r) (last (json_paths r))"
proof -
  let ?cfg = default_config
  let ?s0 = "fresh_run plain_fs"
  let ?P = shared_file
  have f: "files_to_upload ?cfg = []" by (simp add: default_config_def)
  note g = good_phase1_passes[OF f]
  have c: "max_total_attempts ?cfg = 10" "max_agent_attempts ?cfg = 3" "max_sec_per_task ?cfg = 0"
    "no_hold ?cfg"
    by (simp_all add: default_config_def)
  have e: "same_second 1 = brief_fail 1000" "same_second 2 = brief_fail 1030"
    "same_second 3 = brief_pass 1060"
    by (simp_all add: same_second_def)
  have q: "\<And>t. p1 (brief_fail t) = good_phase1"
    "\<And>t. \<not> signal_before_check (brief_fail t)" "\<And>t. \<not> signalled (brief_fail t)"
    "\<And>t. p1 (brief_pass t) = good_phase1"
    "\<And>t. \<not> signal_before_check (brief_pass t)" "\<And>t. \<not> signalled (brief_pass t)"
    "\<And>t. \<not> timed_out_early (p2 (brief_fail t))" "\<And>t. \<not> timed_out_late (p2 (brief_fail t))"
    "\<And>t. after_success_ok (p2 (brief_pass t))"
    by (simp_all add: brief_fail_def brief_pass_def nav_fail_def failing_phase2_def
        passing_phase2_def)
  have s0: "agent_attempts ?s0 = 0" "\<not> shutdown_event ?s0" "disk ?s0 = plain_fs"
    "mkdir_ok (disk ?s0)" "agent_json_paths ?s0 = []" "writable (disk ?s0)"
    "\<forall>p. files (disk ?s0) p = None"
    by (simp_all add: fresh_run_def plain_fs_def)
  \<comment> \<open>pass 1\<close>
  from phase2_closed[OF s0(4) brief_bodies(1)[of 1000], where cfg = ?cfg and tot = 1]
    phase2_closed_record[OF s0(4) brief_bodies(1)[of 1000], where cfg = ?cfg and tot = 1]
  obtain sa where a: "phase2 ?cfg 1 (brief_fail 1000) ?s0 = Next sa" "agent_attempts sa = 1"
    "\<not> shutdown_event sa" "mkdir_ok (disk sa)" "agent_json_paths sa = [?P]"
    "writable (disk sa)" "\<forall>p. p \<noteq> ?P \<longrightarrow> files (disk sa) p = None"
    using q s0 by (auto simp: finally_event_def recorded_def same_second_files)
  have r1: "run_loop ?cfg same_second 0 ?s0 = run_loop ?cfg same_second 1 sa"
    using run_loop_step[of 0 ?cfg ?s0 same_second] a g c e q s0 by (simp add: attempt_def)
  \<comment> \<open>pass 2\<close>
  from phase2_closed[OF a(4) brief_bodies(1)[of 1030], where cfg = ?cfg and tot = 2]
    phase2_closed_record[OF a(4) brief_bodies(1)[of 1030], where cfg = ?cfg and tot = 2]
  obtain sb where b: "phase2 ?cfg 2 (brief_fail 1030) sa = Next sb" "agent_attempts sb = 2"
    "\<not> shutdown_event sb" "mkdir_ok (disk sb)" "agent_json_paths sb = [?P, ?P]"
    "writable (disk sb)" "\<forall>p. p \<noteq> ?P \<longrightarrow> files (disk sb) p = None"
    using q a by (auto simp: finally_event_def recorded_def same_second_files)
  have r2: "run_loop ?cfg same_second 1 sa = run_loop ?cfg same_second 2 sb"
    using run_loop_step[of 1 ?cfg sa same_second] a b g c e q by (simp add: attempt_def)
  \<comment> \<open>pass 3\<close>
  from phase2_passed[OF b(4) brief_bodies(2)[of 1060] q(9)[of 1060], where cfg = ?cfg and tot = 3]
    phase2_passed_record[OF b(4) brief_bodies(2)[of 1060], where cfg = ?cfg and tot = 3]
  obtain sc where d: "phase2 ?cfg 3 (brief_pass 1060) sb = Stop sc" "agent_attempts sc = 3"
    "task_success sc" "agent_json_paths sc = [?P, ?P, ?P]"
    "writable (disk sc)" "holds_record (disk sc) ?P SUCCESS"
    "\<forall>p. p \<noteq> ?P \<longrightarrow> files (disk sc) p = None"
    using q b c by (auto simp: recorded_def same_second_files)
  have r3: "run_loop ?cfg same_second 2 sb = Loop_done 3 sc"
    using run_loop_step[of 2 ?cfg sb same_second] b d g c e q by (simp add: attempt_def)
  from r1 r2 r3 have l: "run_loop ?cfg same_second 0 ?s0 = Loop_done 3 sc" by simp
  note m = marked_though_last[OF d(5) d(6)]
  have "Map.dom (files (deprecate_earlier [?P, ?P, ?P] (disk sc))) = {?P}"
  proof -
    have "files (deprecate_earlier [?P, ?P, ?P] (disk sc)) p \<noteq> None \<longleftrightarrow> p = ?P" for p
      using m(2) m(4)[of p] d(7) by (cases "p = ?P") (auto simp: all_deprecated_def split: option.splits)
    then show ?thesis by (auto simp: Map.dom_def)
  qed
  with l d m show ?thesis by (simp add: run_automation_fresh plain_fs_def)
qed

end
